(* ===== verification/Xv6_Prelude.thy ===== *)
theory Xv6_Prelude
  imports Main "HOL-Library.Word"
begin

text \<open>
  The shared base of the development: the machine types of \<open>kernel/types.h\<close>, the
  outcome type that every kernel operation returns, its sequencing combinator, and the
  generic lemmas on lists and words the component theories use.
\<close>

unbundle bit_operations_syntax

section \<open>Machine types\<close>

text \<open>\<open>uchar\<close>, \<open>uint16\<close>, \<open>uint\<close> and \<open>uint64\<close> of \<open>kernel/types.h\<close>.\<close>

type_synonym u8 = "8 word"
type_synonym u16 = "16 word"
type_synonym u32 = "32 word"
type_synonym u64 = "64 word"

text \<open>Memory seen through a \<open>char *\<close>: element \<open>i\<close> is the byte \<open>p[i]\<close>.\<close>

type_synonym cptr = "nat \<Rightarrow> u8"

text \<open>Flat byte memory, indexed by address, for the functions where aliasing matters.\<close>

type_synonym mem8 = "nat \<Rightarrow> u8"

section \<open>Sleep channels\<close>

text \<open>
  The kernel sleeps on addresses (\<open>sleep(void *chan, ...)\<close>). The addresses it uses are
  those of a few kernel objects; each is one constructor.
\<close>

datatype chan =
    ChanProc nat        \<comment> \<open>\<open>&proc[i]\<close>, slept on by \<open>wait\<close>\<close>
  | ChanTicks           \<comment> \<open>\<open>&ticks\<close>, slept on by \<open>sys_sleep\<close>\<close>
  | ChanLog             \<comment> \<open>\<open>&log\<close>, slept on by \<open>begin_op\<close>\<close>
  | ChanBufLock nat     \<comment> \<open>the sleep lock of \<open>bcache.buf[i]\<close>\<close>
  | ChanBuf nat         \<comment> \<open>\<open>&bcache.buf[i]\<close>, slept on by \<open>virtio_disk_rw\<close>\<close>
  | ChanInodeLock nat   \<comment> \<open>the sleep lock of \<open>icache.inode[i]\<close>\<close>
  | ChanDiskFree nat    \<comment> \<open>\<open>&disk[n].free[0]\<close>\<close>
  | ChanPipeRead u64    \<comment> \<open>\<open>&pi->nread\<close> of the pipe at an address\<close>
  | ChanPipeWrite u64   \<comment> \<open>\<open>&pi->nwrite\<close> of the pipe at an address\<close>
  | ChanCons            \<comment> \<open>\<open>&cons.r\<close>\<close>

section \<open>Outcomes of kernel operations\<close>

text \<open>
  What running a piece of kernel code from a state can give:
  \<^item> \<open>Done a s\<close>: it returns \<open>a\<close> and leaves state \<open>s\<close>;
  \<^item> \<open>Panic m\<close>: it calls \<open>panic(m)\<close>, which never returns;
  \<^item> \<open>Block c s\<close>: it calls \<open>sleep(c, ...)\<close> in state \<open>s\<close> and waits for a \<open>wakeup(c)\<close>;
  \<^item> \<open>Undef m\<close>: the C code would have undefined behaviour here (an access outside an
    array), named by \<open>m\<close>.
\<close>

datatype ('a, 's) outcome =
    Done 'a 's
  | Panic string
  | Block chan 's
  | Undef string

text \<open>Sequencing: run the continuation where the first part returned.\<close>

fun bnd :: "('a, 's) outcome \<Rightarrow> ('a \<Rightarrow> 's \<Rightarrow> ('b, 's) outcome) \<Rightarrow> ('b, 's) outcome" where
  "bnd (Done a s) f = f a s"
| "bnd (Panic m) f = Panic m"
| "bnd (Block c s) f = Block c s"
| "bnd (Undef m) f = Undef m"

lemma bnd_eq_Done_iff [simp]:
  "bnd m f = Done b t \<longleftrightarrow> (\<exists>a s. m = Done a s \<and> f a s = Done b t)"
  by (cases m) auto

lemma bnd_DoneE:
  assumes "bnd m f = Done b t"
  obtains a s where "m = Done a s" "f a s = Done b t"
  using assms by auto

lemma bnd_assoc: "bnd (bnd m f) g = bnd m (\<lambda>a s. bnd (f a s) g)"
  by (cases m) auto

lemma bnd_cong [fundef_cong]:
  assumes "m = m'" and "\<And>a s. m' = Done a s \<Longrightarrow> f a s = g a s"
  shows "bnd m f = bnd m' g"
  using assms by (cases m') auto

text \<open>Total correctness: the operation returns, and its result satisfies the predicate.\<close>

definition returns :: "('a, 's) outcome \<Rightarrow> ('a \<Rightarrow> 's \<Rightarrow> bool) \<Rightarrow> bool" where
  "returns m P \<longleftrightarrow> (case m of Done a s \<Rightarrow> P a s | _ \<Rightarrow> False)"

lemma returns_simps [simp]:
  "returns (Done a s) P = P a s"
  "returns (Panic x) P = False"
  "returns (Block c s) P = False"
  "returns (Undef x) P = False"
  by (simp_all add: returns_def)

lemma returns_iff: "returns m P \<longleftrightarrow> (\<exists>a s. m = Done a s \<and> P a s)"
  by (cases m) auto

lemma returns_bnd:
  assumes "returns m P" and "\<And>a s. P a s \<Longrightarrow> returns (f a s) Q"
  shows "returns (bnd m f) Q"
  using assms by (cases m) auto

lemma returns_weaken: "returns m P \<Longrightarrow> (\<And>a s. P a s \<Longrightarrow> Q a s) \<Longrightarrow> returns m Q"
  by (cases m) auto

text \<open>
  Partial correctness of the states an operation reaches, for frame conditions: every state it
  returns or blocks in satisfies the predicate.
\<close>

definition keeps :: "('s \<Rightarrow> bool) \<Rightarrow> ('a, 's) outcome \<Rightarrow> bool" where
  "keeps P m \<longleftrightarrow> (case m of Done a s \<Rightarrow> P s | Block c s \<Rightarrow> P s | _ \<Rightarrow> True)"

lemma keeps_simps [simp]:
  "keeps P (Done a s) = P s" "keeps P (Block c s) = P s" "keeps P (Panic x)" "keeps P (Undef x)"
  by (simp_all add: keeps_def)

lemma keeps_bnd: "keeps P m \<Longrightarrow> (\<And>a s. m = Done a s \<Longrightarrow> P s \<Longrightarrow> keeps P (f a s)) \<Longrightarrow> keeps P (bnd m f)"
  by (cases m) auto

lemma keepsD: "keeps P m \<Longrightarrow> m = Done a s \<Longrightarrow> P s"
  by simp

lemma keeps_if: "(b \<Longrightarrow> keeps P m) \<Longrightarrow> (\<not> b \<Longrightarrow> keeps P n) \<Longrightarrow> keeps P (if b then m else n)"
  by simp

lemma keeps_option:
  "(x = None \<Longrightarrow> keeps P m) \<Longrightarrow> (\<And>a. x = Some a \<Longrightarrow> keeps P (f a)) \<Longrightarrow> keeps P (case x of None \<Rightarrow> m | Some a \<Rightarrow> f a)"
  by (cases x) auto

text \<open>A \<open>for\<close> loop over a list of indices whose body returns nothing.\<close>

fun each :: "('i \<Rightarrow> 's \<Rightarrow> (unit, 's) outcome) \<Rightarrow> 'i list \<Rightarrow> 's \<Rightarrow> (unit, 's) outcome" where
  "each f [] s = Done () s"
| "each f (i # is) s = bnd (f i s) (\<lambda>_ s. each f is s)"

lemma each_append: "each f (is @ js) s = bnd (each f is s) (\<lambda>_ s. each f js s)"
  by (induction "is" arbitrary: s) (auto simp: bnd_assoc intro!: bnd_cong)

lemma keeps_each: "P s \<Longrightarrow> (\<And>i s. P s \<Longrightarrow> keeps P (f i s)) \<Longrightarrow> keeps P (each f is s)"
  by (induction "is" arbitrary: s) (auto intro: keeps_bnd)

section \<open>Collections of rewrite rules\<close>

named_theorems frame_simps \<open>fields of the state an operation does not write\<close>
named_theorems mem_only_intros \<open>operations that change memory and the free list only\<close>
named_theorems layout_simps \<open>constants of the source (sizes, addresses, limits)\<close>

section \<open>Lists\<close>

lemma take_upt_map: "take k (map f [0..<n]) = map f [0..<min k n]"
  by (simp add: take_map min_def)

lemma length_takeWhile_map_least:
  assumes "k < n" and "\<not> P (f k)" and "\<And>i. i < k \<Longrightarrow> P (f i)"
  shows "length (takeWhile P (map f [0..<n])) = k"
proof -
  have "[0..<n] = [0..<k] @ k # [Suc k..<n]"
    using assms(1) upt_add_eq_append [of 0 k "n - k"] by (simp add: upt_conv_Cons)
  then have "map f [0..<n] = map f [0..<k] @ f k # map f [Suc k..<n]" by simp
  moreover have "\<forall>x \<in> set (map f [0..<k]). P x"
    using assms(3) by auto
  ultimately have "takeWhile P (map f [0..<n]) = map f [0..<k]"
    using assms(2) takeWhile_append2 [of "map f [0..<k]" P "f k # map f [Suc k..<n]"]
    by auto
  then show ?thesis by simp
qed

section \<open>Words\<close>

lemma unat_lt_64: "unat (x :: u64) < 2 ^ 64"
  using unsigned_less [of x] by simp

lemma unat_lt_32: "unat (x :: u32) < 2 ^ 32"
  using unsigned_less [of x] by simp

lemma unat_add_64: "unat (x :: u64) + unat y < 2 ^ 64 \<Longrightarrow> unat (x + y) = unat x + unat y"
  by (simp add: unat_word_ariths)

lemma and_not_mask_eq: "(x :: 'a :: len word) AND NOT (mask n) = push_bit n (drop_bit n x)"
  by (rule bit_word_eqI) (auto simp: bit_simps)

lemma unat_take_bit: "unat (take_bit n (x :: 'a :: len word)) = unat x mod 2 ^ n"
  by (metis take_bit_eq_mod unsigned_take_bit_eq)

lemma unat_drop_bit: "unat (drop_bit n (x :: 'a :: len word)) = unat x div 2 ^ n"
  by (metis drop_bit_eq_div unat_drop_bit_eq)

lemma unat_and_mask: "unat ((x :: 'a :: len word) AND mask n) = unat x mod 2 ^ n"
  by (simp add: unat_take_bit flip: take_bit_eq_mask)

lemma unat_and_not_mask:
  "unat ((x :: 'a :: len word) AND NOT (mask n)) = unat x - unat x mod 2 ^ n"
proof -
  have "push_bit n (drop_bit n x) + take_bit n x = x" by (rule bits_ident)
  then have "x AND NOT (mask n) = x - take_bit n x"
    by (metis and_not_mask_eq add_diff_cancel)
  moreover have "take_bit n x \<le> x"
    by (simp add: word_le_nat_alt unat_take_bit)
  ultimately show ?thesis by (simp add: unat_sub unat_take_bit)
qed

end
