(* ===== verification/Xv6_String.thy ===== *)
theory Xv6_String
  imports Xv6_Prelude
begin

text \<open>
  \<open>kernel/string.c\<close>: the byte and string primitives. The \<open>mem*\<close> functions work on one
  flat memory (\<open>mem8\<close>), because \<open>memmove\<close> promises a result for overlapping ranges; the
  \<open>str*\<close> functions work on the memory seen from each pointer (\<open>cptr\<close>), the way their
  callers use them, on distinct objects. C pointer arithmetic does not wrap, so addresses
  and byte counts are \<open>nat\<close>.
\<close>

section \<open>The operations\<close>

text \<open>
  \<open>memset\<close>: the loop over \<open>i\<close>, with the number of bytes left; the fill value is
  truncated to a \<open>char\<close>.
\<close>

fun memset_from :: "mem8 \<Rightarrow> nat \<Rightarrow> u32 \<Rightarrow> nat \<Rightarrow> nat \<Rightarrow> mem8" where
  "memset_from m cdst c i 0 = m"
| "memset_from m cdst c i (Suc n) = memset_from (m(cdst + i := ucast c)) cdst c (i + 1) n"

definition memset :: "mem8 \<Rightarrow> nat \<Rightarrow> u32 \<Rightarrow> nat \<Rightarrow> mem8" where
  "memset m dst c n = memset_from m dst c 0 n"

fun memcmp :: "mem8 \<Rightarrow> nat \<Rightarrow> nat \<Rightarrow> nat \<Rightarrow> int" where
  "memcmp m s1 s2 0 = 0"
| "memcmp m s1 s2 (Suc n) =
     (if m s1 \<noteq> m s2 then uint (m s1) - uint (m s2) else memcmp m (s1 + 1) (s2 + 1) n)"

text \<open>The two copy loops of \<open>memmove\<close>: \<open>*d++ = *s++\<close> and \<open>*--d = *--s\<close>.\<close>

fun copy_up :: "mem8 \<Rightarrow> nat \<Rightarrow> nat \<Rightarrow> nat \<Rightarrow> mem8" where
  "copy_up m d s 0 = m"
| "copy_up m d s (Suc n) = copy_up (m(d := m s)) (d + 1) (s + 1) n"

fun copy_down :: "mem8 \<Rightarrow> nat \<Rightarrow> nat \<Rightarrow> nat \<Rightarrow> mem8" where
  "copy_down m d s 0 = m"
| "copy_down m d s (Suc n) = copy_down (m(d - 1 := m (s - 1))) (d - 1) (s - 1) n"

definition memmove :: "mem8 \<Rightarrow> nat \<Rightarrow> nat \<Rightarrow> nat \<Rightarrow> mem8" where
  "memmove m dst src n =
     (if src < dst \<and> src + n > dst then copy_down m (dst + n) (src + n) n
      else copy_up m dst src n)"

definition memcpy :: "mem8 \<Rightarrow> nat \<Rightarrow> nat \<Rightarrow> nat \<Rightarrow> mem8" where
  "memcpy m dst src n = memmove m dst src n"

fun strncmp :: "cptr \<Rightarrow> cptr \<Rightarrow> nat \<Rightarrow> int" where
  "strncmp p q 0 = 0"
| "strncmp p q (Suc n) =
     (if p 0 \<noteq> 0 \<and> p 0 = q 0 then strncmp (p \<circ> Suc) (q \<circ> Suc) n
      else uint (p 0) - uint (q 0))"

text \<open>\<open>strncpy\<close>: the copy loop up to the first NUL, then the padding loop.\<close>

fun strncpy_pad :: "cptr \<Rightarrow> nat \<Rightarrow> nat \<Rightarrow> cptr" where
  "strncpy_pad s k 0 = s"
| "strncpy_pad s k (Suc n) = strncpy_pad (s(k := 0)) (k + 1) n"

fun strncpy_from :: "cptr \<Rightarrow> cptr \<Rightarrow> nat \<Rightarrow> nat \<Rightarrow> cptr" where
  "strncpy_from s t k 0 = s"
| "strncpy_from s t k (Suc n) =
     (let s' = s(k := t k)
      in if t k \<noteq> 0 then strncpy_from s' t (k + 1) n else strncpy_pad s' (k + 1) n)"

definition strncpy :: "cptr \<Rightarrow> cptr \<Rightarrow> int \<Rightarrow> cptr" where
  "strncpy s t n = strncpy_from s t 0 (nat n)"

text \<open>
  \<open>safestrcpy\<close>: the argument of the loop is \<open>n\<close> after the pre-decrement. The loop leaves
  \<open>s\<close> one past the NUL it copied, where the final \<open>*s = 0\<close> then stores.
\<close>

fun safestrcpy_from :: "cptr \<Rightarrow> cptr \<Rightarrow> nat \<Rightarrow> nat \<Rightarrow> cptr" where
  "safestrcpy_from s t k 0 = s(k := 0)"
| "safestrcpy_from s t k (Suc n) =
     (let s' = s(k := t k)
      in if t k \<noteq> 0 then safestrcpy_from s' t (k + 1) n else s'(k + 1 := 0))"

definition safestrcpy :: "cptr \<Rightarrow> cptr \<Rightarrow> int \<Rightarrow> cptr" where
  "safestrcpy s t n = (if n \<le> 0 then s else safestrcpy_from s t 0 (nat n - 1))"

text \<open>\<open>strlen\<close> does not return on memory without a NUL: \<open>None\<close>.\<close>

partial_function (option) strlen_from :: "cptr \<Rightarrow> nat \<Rightarrow> nat option" where
  "strlen_from s n = (if s n = 0 then Some n else strlen_from s (n + 1))"

definition strlen :: "cptr \<Rightarrow> nat option" where
  "strlen s = strlen_from s 0"

section \<open>Abstraction: the string a pointer denotes\<close>

text \<open>The bytes before the first NUL among the first \<open>n\<close>.\<close>

definition cstr :: "nat \<Rightarrow> cptr \<Rightarrow> u8 list" where
  "cstr n p = takeWhile (\<lambda>c. c \<noteq> 0) (map p [0..<n])"

lemma cstr_0 [simp]: "cstr 0 p = []"
  by (simp add: cstr_def)

lemma cstr_Suc: "cstr (Suc n) p = (if p 0 = 0 then [] else p 0 # cstr n (p \<circ> Suc))"
proof -
  have "map p [0..<Suc n] = p 0 # map (p \<circ> Suc) [0..<n]"
    by (simp add: upt_conv_Cons map_Suc_upt [symmetric] del: upt_Suc)
  then show ?thesis by (simp add: cstr_def)
qed

lemma length_cstr_le: "length (cstr n p) \<le> n"
  unfolding cstr_def by (metis diff_zero length_map length_takeWhile_le length_upt)

section \<open>memset and memcmp\<close>

lemma memset_from_apply:
  "memset_from m d c i n a = (if d + i \<le> a \<and> a < d + i + n then ucast c else m a)"
  by (induction n arbitrary: m i) auto

lemma memset_apply: "memset m d c n a = (if d \<le> a \<and> a < d + n then ucast c else m a)"
  by (simp add: memset_def memset_from_apply)

lemma memcmp_eq_0_iff: "memcmp m p q n = 0 \<longleftrightarrow> (\<forall>i < n. m (p + i) = m (q + i))"
proof (induction n arbitrary: p q)
  case (Suc n)
  then show ?case
    by (auto simp: less_Suc_eq_0_disj word_uint_eq_iff)
qed simp

section \<open>memmove\<close>

text \<open>Copying upwards is right when the destination does not start inside the source.\<close>

lemma copy_up_apply:
  assumes "d \<le> s \<or> s + n \<le> d"
  shows "copy_up m d s n a = (if d \<le> a \<and> a < d + n then m (s + (a - d)) else m a)"
  using assms
proof (induction n arbitrary: m d s a)
  case (Suc n)
  have "d + 1 \<le> s + 1 \<or> s + 1 + n \<le> d + 1" using Suc.prems by auto
  note IH = Suc.IH [OF this, simplified]
  have "Suc (s + a - Suc d) = s + a - d" if "d < a" using that by simp
  then show ?case
    using Suc.prems by (cases "a = d") (auto simp: IH)
qed auto

text \<open>Copying downwards is right when the source does not start inside the destination.\<close>

lemma copy_down_apply:
  assumes "s \<le> d"
  shows "copy_down m (d + n) (s + n) n a = (if d \<le> a \<and> a < d + n then m (s + (a - d)) else m a)"
  using assms
proof (induction n arbitrary: m a)
  case (Suc n)
  show ?case
    using Suc.prems by (cases "a = d + n") (auto simp: Suc.IH [OF Suc.prems])
qed auto

text \<open>
  C15: \<open>memmove\<close> copies \<open>n\<close> bytes for every overlap of the ranges: afterwards each byte of the
  destination is the byte the source had before the call, and nothing else has changed.
\<close>

theorem memmove_correct:
  "memmove m dst src n = (\<lambda>a. if dst \<le> a \<and> a < dst + n then m (src + (a - dst)) else m a)"
proof (cases "src < dst \<and> src + n > dst")
  case True
  then show ?thesis by (auto simp: memmove_def copy_down_apply)
next
  case False
  then have "dst \<le> src \<or> src + n \<le> dst" by auto
  with False show ?thesis by (auto simp: memmove_def copy_up_apply)
qed

section \<open>Strings\<close>

text \<open>
  C16: \<open>strncmp\<close> is zero exactly when the two strings, cut at their first NUL or at \<open>n\<close>, are
  equal.
\<close>

theorem strncmp_eq_0_iff: "strncmp p q n = 0 \<longleftrightarrow> cstr n p = cstr n q"
proof (induction n arbitrary: p q)
  case (Suc n)
  show ?case by (auto simp: Suc cstr_Suc comp_def word_uint_eq_iff)
qed simp

lemma strncpy_pad_apply: "strncpy_pad s k n i = (if k \<le> i \<and> i < k + n then 0 else s i)"
  by (induction n arbitrary: s k) auto

lemma cstr_shift: "cstr n (p \<circ> Suc) = cstr n (\<lambda>i. p (Suc i))"
  by (simp add: comp_def)

lemma strncpy_from_apply:
  "strncpy_from s t k n i =
     (if i < k \<or> k + n \<le> i then s i
      else if i < k + length (cstr n (\<lambda>j. t (k + j))) then t i else 0)"
proof (induction n arbitrary: s k i)
  case (Suc n)
  show ?case
    by (cases "i = k") (auto simp: Suc Let_def cstr_Suc strncpy_pad_apply comp_def)
qed auto

text \<open>
  \<open>strncpy\<close> fills the first \<open>n\<close> bytes with the string, padded with NULs, and writes nothing
  else; it does not terminate a string of \<open>n\<close> or more bytes.
\<close>

lemma strncpy_correct:
  "strncpy s t n i =
     (if int i < n then if i < length (cstr (nat n) t) then t i else 0 else s i)"
  by (auto simp: strncpy_def strncpy_from_apply)

lemma safestrcpy_from_apply:
  "safestrcpy_from s t k n i =
     (let l = length (cstr n (\<lambda>j. t (k + j)))
      in if i < k \<or> k + n < i then s i
         else if i < k + l then t i
         else if i = k + l \<or> i = k + l + 1 \<and> l < n then 0 else s i)"
proof (induction n arbitrary: s k)
  case (Suc n)
  show ?case
    by (auto simp: Suc Let_def cstr_Suc comp_def)
qed (auto simp: Let_def)

lemma cstr_conv_map: "cstr n p = map p [0..<length (cstr n p)]"
  using length_cstr_le [of n p]
  by (metis cstr_def min.absorb1 take_upt_map takeWhile_eq_take)

lemma cstr_eqI:
  assumes "l < n" and "p l = 0" and "\<And>i. i < l \<Longrightarrow> p i \<noteq> 0"
  shows "cstr n p = map p [0..<l]"
proof -
  have "length (cstr n p) = l"
    unfolding cstr_def using assms by (intro length_takeWhile_map_least) auto
  then show ?thesis by (metis cstr_conv_map)
qed

lemma cstr_nonzero: "i < length (cstr n p) \<Longrightarrow> p i \<noteq> 0"
  by (metis (mono_tags, lifting) add_0 cstr_conv_map cstr_def length_map length_upt
      nth_map nth_mem nth_upt set_takeWhileD)

lemma take_cstr_Suc: "take n (cstr (Suc n) t) = cstr n t"
proof (induction n arbitrary: t)
  case (Suc n)
  then show ?case by (simp add: cstr_Suc [of "Suc n"] cstr_Suc [of n t] comp_def)
qed simp

text \<open>
  C17: \<open>safestrcpy\<close> with a buffer of \<open>n > 0\<close> bytes leaves a NUL-terminated string in it, the
  first \<open>n - 1\<close> bytes of the source, and writes nothing beyond the buffer.
\<close>

theorem safestrcpy_correct:
  assumes "0 < n"
  shows "cstr (nat n) (safestrcpy s t n) = take (nat n - 1) (cstr (nat n) t)
     \<and> length (cstr (nat n) (safestrcpy s t n)) < nat n
     \<and> (\<forall>i. nat n \<le> i \<longrightarrow> safestrcpy s t n i = s i)"
proof -
  obtain r where r: "nat n = Suc r" using assms by (metis gr0_conv_Suc zero_less_nat_eq)
  let ?l = "length (cstr r t)"
  have ap: "safestrcpy s t n i = (if r < i then s i else if i < ?l then t i
     else if i = ?l \<or> i = Suc ?l \<and> ?l < r then 0 else s i)" for i
    using assms r by (simp add: safestrcpy_def safestrcpy_from_apply Let_def)
  have l: "?l \<le> r" by (rule length_cstr_le)
  have "cstr (Suc r) (safestrcpy s t n) = map (safestrcpy s t n) [0..<?l]"
    using l by (intro cstr_eqI) (auto simp: ap cstr_nonzero)
  also have "\<dots> = map t [0..<?l]" using l by (auto simp: ap)
  also have "\<dots> = cstr r t" by (rule cstr_conv_map [symmetric])
  finally have "cstr (Suc r) (safestrcpy s t n) = cstr r t" .
  with l show ?thesis by (simp add: r take_cstr_Suc ap)
qed

theorem safestrcpy_correct_witness:
  "cstr 3 (safestrcpy (\<lambda>_. 7) (\<lambda>_. 9) 3) = [9, 9] \<and> safestrcpy (\<lambda>_. 7) (\<lambda>_. 9) 3 5 = 7"
proof -
  have "nat (3::int) = 3" by simp
  then show ?thesis
    using safestrcpy_correct [of 3 "\<lambda>_. 7" "\<lambda>_. 9"] by (simp add: cstr_def upt_rec)
qed

lemma strlen_from_reaches:
  assumes "n \<le> k" and "s k = 0" and "\<And>i. n \<le> i \<Longrightarrow> i < k \<Longrightarrow> s i \<noteq> 0"
  shows "strlen_from s n = Some k"
  using assms
proof (induction "k - n" arbitrary: n)
  case 0
  then show ?case by (simp add: strlen_from.simps)
next
  case (Suc d)
  then have "s n \<noteq> 0" and "strlen_from s (n + 1) = Some k" by auto
  then show ?case by (subst strlen_from.simps) simp
qed

lemma strlen_from_Some:
  assumes "strlen_from s n = Some r"
  shows "s r = 0"
proof (rule strlen_from.raw_induct [where P = "\<lambda>s n r. s r = 0", OF _ assms])
  fix f s n r
  assume "\<And>s n r. f s n = Some r \<Longrightarrow> s r = (0::u8)"
    and "(if s n = 0 then Some n else f s (n + 1)) = Some r"
  then show "s r = 0" by (auto split: if_splits)
qed

text \<open>
  \<open>strlen\<close> returns the position of the first NUL, and does not return where there is none.
\<close>

lemma strlen_correct:
  "strlen s = (if \<exists>k. s k = 0 then Some (LEAST k. s k = 0) else None)"
proof (cases "\<exists>k. s k = 0")
  case True
  then have "strlen_from s 0 = Some (LEAST k. s k = 0)"
    by (intro strlen_from_reaches) (auto intro: LeastI_ex dest: not_less_Least)
  with True show ?thesis by (simp add: strlen_def)
next
  case False
  then have "strlen_from s 0 \<noteq> Some r" for r using strlen_from_Some by blast
  with False show ?thesis by (cases "strlen_from s 0") (auto simp: strlen_def)
qed

end
