(* ===== verification/Xv6_List.thy ===== *)
theory Xv6_List
  imports Xv6_Prelude
begin

text \<open>
  \<open>kernel/list.c\<close>: the circular doubly-linked lists of the buddy allocator. The list
  nodes live in a heap of \<open>next\<close> and \<open>prev\<close> fields indexed by node address, so that the
  aliasing between a list head and its elements is the code's. The theory relates a list
  head to the sequence of its elements, and states the contract of the operations as a
  locale that \<open>Xv6_Buddy\<close> works against.
\<close>

section \<open>The operations\<close>

text \<open>\<open>struct list\<close> (\<open>kernel/defs.h\<close>), one per node address.\<close>

record 'a lheap =
  nxt :: "'a \<Rightarrow> 'a"
  prv :: "'a \<Rightarrow> 'a"

definition lst_init :: "'a lheap \<Rightarrow> 'a \<Rightarrow> 'a lheap" where
  "lst_init h lst = h\<lparr>nxt := (nxt h)(lst := lst), prv := (prv h)(lst := lst)\<rparr>"

definition lst_empty :: "'a lheap \<Rightarrow> 'a \<Rightarrow> bool" where
  "lst_empty h lst \<longleftrightarrow> nxt h lst = lst"

definition lst_remove :: "'a lheap \<Rightarrow> 'a \<Rightarrow> 'a lheap" where
  "lst_remove h e =
     (let h1 = h\<lparr>nxt := (nxt h)(prv h e := nxt h e)\<rparr>
      in h1\<lparr>prv := (prv h1)(nxt h1 e := prv h1 e)\<rparr>)"

definition lst_pop :: "'a lheap \<Rightarrow> 'a \<Rightarrow> ('a, 'a lheap) outcome" where
  "lst_pop h lst =
     (if nxt h lst = lst then Panic ''lst_pop''
      else let p = nxt h lst in Done p (lst_remove h p))"

definition lst_push :: "'a lheap \<Rightarrow> 'a \<Rightarrow> 'a \<Rightarrow> 'a lheap" where
  "lst_push h lst p =
     (let h1 = h\<lparr>nxt := (nxt h)(p := nxt h lst)\<rparr>;
          h2 = h1\<lparr>prv := (prv h1)(p := lst)\<rparr>;
          h3 = h2\<lparr>prv := (prv h2)(nxt h2 lst := p)\<rparr>
      in h3\<lparr>nxt := (nxt h3)(lst := p)\<rparr>)"

text \<open>\<open>lst_print\<close> as the sequence of addresses printed; \<open>None\<close> if the walk never ends.\<close>

partial_function (option) lst_print_from :: "'a lheap \<Rightarrow> 'a \<Rightarrow> 'a \<Rightarrow> 'a list \<Rightarrow> 'a list option" where
  "lst_print_from h lst p out =
     (if p \<noteq> lst then lst_print_from h lst (nxt h p) (out @ [p]) else Some out)"

definition lst_print :: "'a lheap \<Rightarrow> 'a \<Rightarrow> 'a list option" where
  "lst_print h lst = lst_print_from h lst (nxt h lst) []"

section \<open>Representation\<close>

text \<open>
  \<open>seg h a xs b\<close>: following \<open>next\<close> from \<open>a\<close> visits \<open>xs\<close> and reaches \<open>b\<close>, and the \<open>prev\<close>
  fields lead back. A list head \<open>l\<close> represents \<open>xs\<close> when the segment closes at \<open>l\<close> itself.
\<close>

fun seg :: "'a lheap \<Rightarrow> 'a \<Rightarrow> 'a list \<Rightarrow> 'a \<Rightarrow> bool" where
  "seg h a [] b \<longleftrightarrow> nxt h a = b \<and> prv h b = a"
| "seg h a (x # xs) b \<longleftrightarrow> nxt h a = x \<and> prv h x = a \<and> seg h x xs b"

definition dll :: "'a lheap \<Rightarrow> 'a \<Rightarrow> 'a list \<Rightarrow> bool" where
  "dll h l xs \<longleftrightarrow> distinct (l # xs) \<and> seg h l xs l"

lemma seg_append: "seg h a (xs @ y # ys) b \<longleftrightarrow> seg h a xs y \<and> seg h y ys b"
  by (induction xs arbitrary: a) auto

text \<open>A segment reads \<open>next\<close> of its start and elements and \<open>prev\<close> of its elements and end.\<close>

lemma seg_cong:
  assumes "\<And>x. x \<in> set (a # xs) \<Longrightarrow> nxt h' x = nxt h x"
    and "\<And>x. x \<in> set (xs @ [b]) \<Longrightarrow> prv h' x = prv h x"
  shows "seg h' a xs b = seg h a xs b"
  using assms by (induction xs arbitrary: a) auto

lemma dll_cong:
  assumes "\<And>x. x \<in> set (l # xs) \<Longrightarrow> nxt h' x = nxt h x \<and> prv h' x = prv h x"
  shows "dll h' l xs = dll h l xs"
  using assms seg_cong [of l xs h' h l] unfolding dll_def by auto

lemma seg_nxt_last: "seg h a xs b \<Longrightarrow> nxt h (last (a # xs)) = b"
  by (induction xs arbitrary: a) auto

lemma seg_neighbours:
  assumes "seg h a xs b" and "x \<in> set (a # xs)"
  shows "nxt h x \<in> set (xs @ [b])"
  using assms by (induction xs arbitrary: a) auto

lemma seg_prv:
  assumes "seg h a xs b" and "x \<in> set (xs @ [b])"
  shows "prv h x \<in> set (a # xs)"
  using assms by (induction xs arbitrary: a) auto

lemma dll_nxt_in: "dll h l xs \<Longrightarrow> x \<in> set (l # xs) \<Longrightarrow> nxt h x \<in> set (l # xs)"
  unfolding dll_def using seg_neighbours [of h l xs l x] by auto

lemma dll_prv_in: "dll h l xs \<Longrightarrow> x \<in> set (l # xs) \<Longrightarrow> prv h x \<in> set (l # xs)"
  unfolding dll_def using seg_prv [of h l xs l x] by auto

section \<open>The operations implement sequences\<close>

lemma dll_init: "dll (lst_init h l) l []"
  by (simp add: dll_def lst_init_def)

lemma dll_empty_iff:
  assumes "dll h l xs"
  shows "lst_empty h l \<longleftrightarrow> xs = []"
  using assms by (cases xs) (auto simp: dll_def lst_empty_def)

lemma dll_push:
  assumes "dll h l xs" and "p \<notin> set (l # xs)"
  shows "dll (lst_push h l p) l (p # xs)"
proof (cases xs)
  case Nil
  with assms show ?thesis by (auto simp: dll_def lst_push_def Let_def)
next
  case (Cons y ys)
  with assms have "seg (lst_push h l p) y ys l = seg h y ys l"
    by (intro seg_cong) (auto simp: dll_def lst_push_def Let_def)
  with assms Cons show ?thesis by (auto simp: dll_def lst_push_def Let_def)
qed

text \<open>Unlinking an element from between two segments joins them.\<close>

lemma seg_unlink:
  assumes "seg h a (xs @ e # ys) b" and "distinct (a # xs @ e # ys)" and "b \<notin> set (xs @ e # ys)"
  shows "seg (lst_remove h e) a (xs @ ys) b"
  using assms
proof (induction xs arbitrary: a)
  case Nil
  show ?case
  proof (cases ys)
    case Nil
    with Nil.prems show ?thesis by (auto simp: lst_remove_def Let_def)
  next
    case (Cons y zs)
    with Nil.prems have "seg (lst_remove h e) y zs b = seg h y zs b"
      by (intro seg_cong) (auto simp: lst_remove_def Let_def)
    with Nil.prems Cons show ?thesis by (auto simp: lst_remove_def Let_def)
  qed
next
  case (Cons x xs)
  then have "seg (lst_remove h e) x (xs @ ys) b" by auto
  moreover have "prv h e \<in> set (x # xs)"
    using Cons.prems(1) seg_prv [of h x xs e e] by (auto simp: seg_append)
  moreover have "nxt h e \<in> set (ys @ [b])"
    using Cons.prems(1) seg_neighbours [of h e ys b e] by (auto simp: seg_append)
  ultimately show ?case
    using Cons.prems by (auto simp: lst_remove_def Let_def)
qed

lemma dll_remove:
  assumes "dll h l (xs @ e # ys)"
  shows "dll (lst_remove h e) l (xs @ ys)"
  using assms seg_unlink [of h l xs e ys l] by (auto simp: dll_def)

lemma dll_pop_Nil: "dll h l [] \<Longrightarrow> lst_pop h l = Panic ''lst_pop''"
  by (simp add: dll_def lst_pop_def)

lemma dll_pop_Cons:
  assumes "dll h l (x # xs)"
  shows "lst_pop h l = Done x (lst_remove h x)" and "dll (lst_remove h x) l xs"
  using assms dll_remove [of h l "[]" x xs] by (auto simp: dll_def lst_pop_def Let_def)

lemma dll_print_from:
  assumes "seg h a xs l" and "l \<notin> set xs"
  shows "lst_print_from h l (nxt h a) out = Some (out @ xs)"
  using assms
proof (induction xs arbitrary: a out)
  case Nil
  then show ?case by (simp add: lst_print_from.simps)
next
  case (Cons x xs)
  then show ?case by (subst lst_print_from.simps) auto
qed

lemma dll_print: "dll h l xs \<Longrightarrow> lst_print h l = Some xs"
  unfolding lst_print_def dll_def using dll_print_from [of h l xs l "[]"] by simp

section \<open>Other lists are not touched\<close>

lemma dll_push_other:
  assumes "dll h l xs" and "dll h m ys"
    and "set (l # xs) \<inter> set (m # ys) = {}" and "p \<notin> set (m # ys)"
  shows "dll (lst_push h l p) m ys"
proof -
  have "nxt h l \<in> set (l # xs)" using assms(1) by (rule dll_nxt_in) simp
  then have "dll (lst_push h l p) m ys = dll h m ys"
    using assms(3,4) by (intro dll_cong) (auto simp: lst_push_def Let_def)
  with assms(2) show ?thesis by simp
qed

lemma lst_remove_other:
  assumes "x \<noteq> nxt h e" and "x \<noteq> prv h e" and "prv h e \<noteq> e"
  shows "nxt (lst_remove h e) x = nxt h x \<and> prv (lst_remove h e) x = prv h x"
  using assms by (simp add: lst_remove_def Let_def)

lemma dll_prv_neq:
  assumes "dll h l xs" and "e \<in> set xs"
  shows "prv h e \<noteq> e"
proof -
  obtain ys zs where xs: "xs = ys @ e # zs" using assms(2) by (auto dest: split_list)
  then have "seg h l ys e" and "distinct (l # ys @ e # zs)"
    using assms(1) by (auto simp: dll_def seg_append)
  then show ?thesis using seg_prv [of h l ys e e] by auto
qed

lemma dll_remove_other:
  assumes "dll h l xs" and "e \<in> set xs" and "dll h m ys" and "set (l # xs) \<inter> set (m # ys) = {}"
  shows "dll (lst_remove h e) m ys"
proof -
  have "e \<in> set (l # xs)" using assms(2) by simp
  then have "nxt h e \<in> set (l # xs)" "prv h e \<in> set (l # xs)"
    by (rule dll_nxt_in [OF assms(1)], rule dll_prv_in [OF assms(1)])
  with assms(4) have "nxt (lst_remove h e) x = nxt h x \<and> prv (lst_remove h e) x = prv h x"
    if "x \<in> set (m # ys)" for x
    using that dll_prv_neq [OF assms(1,2)] by (intro lst_remove_other) blast+
  then have "dll (lst_remove h e) m ys = dll h m ys" by (rule dll_cong)
  with assms(3) show ?thesis by simp
qed

lemma dll_init_other:
  assumes "dll h m ys" and "l \<notin> set (m # ys)"
  shows "dll (lst_init h l) m ys"
proof -
  have "dll (lst_init h l) m ys = dll h m ys"
    using assms(2) by (intro dll_cong) (auto simp: lst_init_def)
  with assms(1) show ?thesis by simp
qed

section \<open>The contract, and families of lists\<close>

text \<open>
  What a client of \<open>list.c\<close> relies on. \<open>repr h l xs\<close> reads: in heap \<open>h\<close> the list at head
  \<open>l\<close> holds \<open>xs\<close>.
\<close>

locale linked_lists =
  fixes init :: "'h \<Rightarrow> 'a \<Rightarrow> 'h"
    and is_empty :: "'h \<Rightarrow> 'a \<Rightarrow> bool"
    and push :: "'h \<Rightarrow> 'a \<Rightarrow> 'a \<Rightarrow> 'h"
    and pop :: "'h \<Rightarrow> 'a \<Rightarrow> ('a, 'h) outcome"
    and remove :: "'h \<Rightarrow> 'a \<Rightarrow> 'h"
    and repr :: "'h \<Rightarrow> 'a \<Rightarrow> 'a list \<Rightarrow> bool"
  assumes repr_distinct: "repr h l xs \<Longrightarrow> distinct (l # xs)"
    and repr_init: "repr (init h l) l []"
    and repr_init_other: "repr h m ys \<Longrightarrow> l \<notin> set (m # ys) \<Longrightarrow> repr (init h l) m ys"
    and repr_empty: "repr h l xs \<Longrightarrow> is_empty h l \<longleftrightarrow> xs = []"
    and repr_push: "repr h l xs \<Longrightarrow> p \<notin> set (l # xs) \<Longrightarrow> repr (push h l p) l (p # xs)"
    and repr_push_other: "repr h l xs \<Longrightarrow> repr h m ys \<Longrightarrow>
          set (l # xs) \<inter> set (m # ys) = {} \<Longrightarrow> p \<notin> set (m # ys) \<Longrightarrow> repr (push h l p) m ys"
    and pop_Nil: "repr h l [] \<Longrightarrow> pop h l = Panic ''lst_pop''"
    and pop_Cons: "repr h l (x # xs) \<Longrightarrow> pop h l = Done x (remove h x)"
    and repr_remove: "repr h l (xs @ e # ys) \<Longrightarrow> repr (remove h e) l (xs @ ys)"
    and repr_remove_other: "repr h l xs \<Longrightarrow> e \<in> set xs \<Longrightarrow> repr h m ys \<Longrightarrow>
          set (l # xs) \<inter> set (m # ys) = {} \<Longrightarrow> repr (remove h e) m ys"
begin

text \<open>
  A family of pairwise disjoint lists in one heap, with heads \<open>hds k\<close> and contents \<open>F k\<close>
  for \<open>k < n\<close>: the shape of the buddy allocator's free lists.
\<close>

definition family :: "'h \<Rightarrow> (nat \<Rightarrow> 'a) \<Rightarrow> nat \<Rightarrow> (nat \<Rightarrow> 'a list) \<Rightarrow> bool" where
  "family h hds n F \<longleftrightarrow>
     (\<forall>k<n. repr h (hds k) (F k)) \<and>
     (\<forall>j<n. \<forall>k<n. j \<noteq> k \<longrightarrow> set (hds j # F j) \<inter> set (hds k # F k) = {})"

lemma family_reprD: "family h hds n F \<Longrightarrow> k < n \<Longrightarrow> repr h (hds k) (F k)"
  by (simp add: family_def)

lemma family_disjD:
  "family h hds n F \<Longrightarrow> j < n \<Longrightarrow> k < n \<Longrightarrow> j \<noteq> k \<Longrightarrow> set (hds j # F j) \<inter> set (hds k # F k) = {}"
  unfolding family_def by blast

lemma family_push:
  assumes "family h hds n F" and "k < n" and "\<And>j. j < n \<Longrightarrow> p \<notin> set (hds j # F j)"
  shows "family (push h (hds k) p) hds n (F(k := p # F k))"
proof -
  have "repr (push h (hds k) p) (hds j) ((F(k := p # F k)) j)" if "j < n" for j
    using assms that repr_push [of h "hds k" "F k" p]
      repr_push_other [of h "hds k" "F k" "hds j" "F j" p]
      family_disjD [OF assms(1,2) that]
    by (auto dest: family_reprD)
  moreover have "set (hds i # (F(k := p # F k)) i) \<inter> set (hds j # (F(k := p # F k)) j) = {}"
    if "i < n" "j < n" "i \<noteq> j" for i j
    using family_disjD [OF assms(1) that] assms(3) [OF that(1)] assms(3) [OF that(2)] that(3)
    by auto
  ultimately show ?thesis by (simp add: family_def)
qed

lemma family_remove:
  assumes "family h hds n F" and "k < n" and "F k = xs @ e # ys"
  shows "family (remove h e) hds n (F(k := xs @ ys))"
proof -
  have "repr (remove h e) (hds j) ((F(k := xs @ ys)) j)" if "j < n" for j
    using assms that repr_remove [of h "hds k" xs e ys]
      repr_remove_other [of h "hds k" "F k" e "hds j" "F j"]
      family_disjD [OF assms(1,2) that] family_reprD [OF assms(1,2)] family_reprD [OF assms(1) that]
    by (cases "j = k") simp_all
  moreover have "set (hds i # (F(k := xs @ ys)) i) \<inter> set (hds j # (F(k := xs @ ys)) j) = {}"
    if "i < n" "j < n" "i \<noteq> j" for i j
    using family_disjD [OF assms(1) that] assms(3) that(3) by auto
  ultimately show ?thesis by (simp add: family_def)
qed

lemma family_pop:
  assumes "family h hds n F" and "k < n" and "F k = x # xs"
  shows "pop h (hds k) = Done x (remove h x)"
    and "family (remove h x) hds n (F(k := xs))"
  using assms family_remove [of h hds n F k "[]" x xs] family_reprD [OF assms(1,2)] pop_Cons
  by auto

lemma family_is_empty: "family h hds n F \<Longrightarrow> k < n \<Longrightarrow> is_empty h (hds k) \<longleftrightarrow> F k = []"
  using family_reprD repr_empty by blast

text \<open>Last in, first out: a pushed node is the next one popped, and the lists are back.\<close>

lemma family_push_pop:
  assumes "family h hds n F" and "k < n" and "\<And>j. j < n \<Longrightarrow> p \<notin> set (hds j # F j)"
  shows "\<exists>h'. pop (push h (hds k) p) (hds k) = Done p h' \<and> family h' hds n F"
proof -
  have "family (push h (hds k) p) hds n (F(k := p # F k))" using assms by (rule family_push)
  from family_pop [OF this assms(2), of p "F k"] show ?thesis by auto
qed

end

interpretation lst: linked_lists lst_init lst_empty lst_push lst_pop lst_remove dll
proof (unfold_locales, goal_cases)
  case (1 h l xs) then show ?case by (simp add: dll_def)
next
  case 2 show ?case by (rule dll_init)
next
  case 3 then show ?case by (rule dll_init_other)
next
  case 4 then show ?case by (rule dll_empty_iff)
next
  case 5 then show ?case by (rule dll_push)
next
  case 6 then show ?case by (rule dll_push_other)
next
  case 7 then show ?case by (rule dll_pop_Nil)
next
  case 8 then show ?case by (rule dll_pop_Cons(1))
next
  case 9 then show ?case by (rule dll_remove)
next
  case 10 then show ?case by (rule dll_remove_other)
qed

text \<open>
  C14: the list operations implement sequences. On a list that holds \<open>xs\<close>: a push of a node
  that is not in it puts the node first; removing an element takes exactly that element out;
  a pop returns the first element and leaves the rest, and panics on an empty list;
  \<open>lst_empty\<close> tells whether the sequence is empty and \<open>lst_print\<close> visits it in order.
\<close>

theorem lst_implements_sequence:
  assumes "dll h l xs"
  shows "(\<forall>p. p \<noteq> l \<longrightarrow> p \<notin> set xs \<longrightarrow> dll (lst_push h l p) l (p # xs))
     \<and> (\<forall>e. e \<in> set xs \<longrightarrow> dll (lst_remove h e) l (remove1 e xs))
     \<and> (case xs of [] \<Rightarrow> lst_pop h l = Panic ''lst_pop''
        | x # ys \<Rightarrow> \<exists>h'. lst_pop h l = Done x h' \<and> dll h' l ys)
     \<and> (lst_empty h l \<longleftrightarrow> xs = []) \<and> lst_print h l = Some xs"
proof -
  have "dll (lst_remove h e) l (remove1 e xs)" if e: "e \<in> set xs" for e
  proof -
    obtain ys zs where xs: "xs = ys @ e # zs" "e \<notin> set ys" using e split_list_first by metis
    with assms have "dll (lst_remove h e) l (ys @ zs)" by (intro dll_remove) simp
    with xs show ?thesis by (simp add: remove1_append)
  qed
  moreover have "case xs of [] \<Rightarrow> lst_pop h l = Panic ''lst_pop''
      | x # ys \<Rightarrow> \<exists>h'. lst_pop h l = Done x h' \<and> dll h' l ys"
    using assms dll_pop_Nil dll_pop_Cons [of h l] by (cases xs) auto
  ultimately show ?thesis
    using assms by (simp add: dll_push lst.repr_empty dll_print)
qed

theorem lst_implements_sequence_witness:
  "let h = lst_push (lst_push (lst_init \<lparr>nxt = \<lambda>_. 0, prv = \<lambda>_. 0\<rparr> (0::nat)) 0 1) 0 2
   in dll h 0 [2, 1] \<and> lst_print h 0 = Some [2, 1] \<and> dll (lst_remove h 1) 0 [2]"
proof -
  let ?h = "lst_push (lst_push (lst_init \<lparr>nxt = \<lambda>_. 0, prv = \<lambda>_. 0\<rparr> (0::nat)) 0 1) 0 2"
  have h: "dll ?h 0 [2, 1]" by (intro dll_push dll_init) simp_all
  show ?thesis using lst_implements_sequence [OF h] h by (simp add: Let_def)
qed

end
