(* ===== verification/Xv6_Buddy.thy ===== *)
theory Xv6_Buddy
  imports Xv6_List
begin

text \<open>
  \<open>kernel/buddy.c\<close>: the buddy allocator. The free lists are those of \<open>Xv6_List\<close>, over the heads
  \<open>bd_sizes[k].free\<close> and the free blocks; the bit arrays are functions from byte index to byte, one for
  each size. Differences of pointers into the heap are cut to \<open>int\<close> in the code; the heap is far smaller than that.
\<close>

section \<open>State and sizes\<close>

datatype bd_node = FreeHead nat | Blk u64

record bd_st =
  nsizes :: nat
  bd_base :: u64
  bd_lists :: "bd_node lheap"
  bd_alloc :: "nat \<Rightarrow> cptr"
  bd_split :: "nat \<Rightarrow> cptr"

definition LEAF_SIZE :: nat where "LEAF_SIZE = 16"

definition BLK_SIZE :: "nat \<Rightarrow> nat" where "BLK_SIZE k = 2 ^ k * LEAF_SIZE"

definition MAXSIZE :: "bd_st \<Rightarrow> nat" where "MAXSIZE s = nsizes s - 1"

definition NBLK :: "bd_st \<Rightarrow> nat \<Rightarrow> nat" where "NBLK s k = 2 ^ (MAXSIZE s - k)"

definition ROUNDUP :: "nat \<Rightarrow> nat \<Rightarrow> nat" where "ROUNDUP n sz = ((n - 1) div sz + 1) * sz"

section \<open>Bit arrays\<close>

definition bd_isset :: "cptr \<Rightarrow> nat \<Rightarrow> bool" where
  "bd_isset a i \<longleftrightarrow> (let b = a (i div 8); m = push_bit (i mod 8) 1 in b AND m = m)"

definition bd_set :: "cptr \<Rightarrow> nat \<Rightarrow> cptr" where
  "bd_set a i = (let b = a (i div 8); m = push_bit (i mod 8) 1 in a(i div 8 := b OR m))"

definition bd_clear :: "cptr \<Rightarrow> nat \<Rightarrow> cptr" where
  "bd_clear a i = (let b = a (i div 8); m = push_bit (i mod 8) 1 in a(i div 8 := b AND NOT m))"

definition set_alloc :: "(cptr \<Rightarrow> nat \<Rightarrow> cptr) \<Rightarrow> nat \<Rightarrow> nat \<Rightarrow> bd_st \<Rightarrow> bd_st" where
  "set_alloc f k i s = s\<lparr>bd_alloc := (bd_alloc s)(k := f (bd_alloc s k) i)\<rparr>"

definition set_split :: "(cptr \<Rightarrow> nat \<Rightarrow> cptr) \<Rightarrow> nat \<Rightarrow> nat \<Rightarrow> bd_st \<Rightarrow> bd_st" where
  "set_split f k i s = s\<lparr>bd_split := (bd_split s)(k := f (bd_split s k) i)\<rparr>"

text \<open>\<open>bd_print_vector\<close> as the ranges it prints: its loop at bit \<open>b\<close> with \<open>n\<close> bits to go.\<close>

fun print_ranges :: "cptr \<Rightarrow> nat \<Rightarrow> nat \<Rightarrow> bool \<Rightarrow> nat \<Rightarrow> (nat \<times> nat) list" where
  "print_ranges v b 0 last_bit lb = (if lb = 0 \<or> last_bit then [(lb, b)] else [])"
| "print_ranges v b (Suc n) last_bit lb =
     (if last_bit = bd_isset v b then print_ranges v (Suc b) n last_bit lb
      else (if last_bit then [(lb, b)] else []) @ print_ranges v (Suc b) n (bd_isset v b) b)"

definition bd_print_vector :: "cptr \<Rightarrow> nat \<Rightarrow> (nat \<times> nat) list" where
  "bd_print_vector v len = print_ranges v 0 len True 0"

definition bd_print :: "bd_st \<Rightarrow> (nat \<times> bd_node list option \<times> (nat \<times> nat) list \<times> (nat \<times> nat) list) list" where
  "bd_print s = map (\<lambda>k. (k, lst_print (bd_lists s) (FreeHead k), bd_print_vector (bd_alloc s k) (NBLK s k),
     if k > 0 then bd_print_vector (bd_split s k) (NBLK s k) else [])) [0..<nsizes s]"

section \<open>Blocks\<close>

text \<open>\<open>firstk\<close>; its 64-bit \<open>size\<close> can wrap around, and then the loop does not end.\<close>

partial_function (option) firstk_from :: "u64 \<Rightarrow> nat \<Rightarrow> u64 \<Rightarrow> nat option" where
  "firstk_from n k sz = (if sz < n then firstk_from n (k + 1) (sz * 2) else Some k)"

definition firstk :: "u64 \<Rightarrow> nat option" where
  "firstk n = firstk_from n 0 (of_nat LEAF_SIZE)"

definition blk_index :: "bd_st \<Rightarrow> nat \<Rightarrow> u64 \<Rightarrow> nat" where
  "blk_index s k p = unat (p - bd_base s) div BLK_SIZE k"

definition addr :: "bd_st \<Rightarrow> nat \<Rightarrow> nat \<Rightarrow> u64" where
  "addr s k bi = bd_base s + of_nat (bi * BLK_SIZE k)"

definition blk_index_next :: "bd_st \<Rightarrow> nat \<Rightarrow> u64 \<Rightarrow> nat" where
  "blk_index_next s k p =
     (let d = unat (p - bd_base s) in d div BLK_SIZE k + (if d mod BLK_SIZE k \<noteq> 0 then 1 else 0))"

definition buddy_of :: "nat \<Rightarrow> nat" where
  "buddy_of bi = (if bi mod 2 = 0 then bi + 1 else bi - 1)"

section \<open>Allocation\<close>

text \<open>The loop of \<open>bd_malloc\<close> that splits the block \<open>p\<close> from size \<open>k\<close> down to \<open>fk\<close>.\<close>

fun bd_split_down :: "nat \<Rightarrow> nat \<Rightarrow> u64 \<Rightarrow> bd_st \<Rightarrow> bd_st" where
  "bd_split_down fk 0 p s = s"
| "bd_split_down fk (Suc k) p s =
     (if Suc k > fk
      then let q = p + of_nat (BLK_SIZE k);
               s = set_split bd_set (Suc k) (blk_index s (Suc k) p) s;
               s = set_alloc bd_set k (blk_index s k p) s;
               s = s\<lparr>bd_lists := lst_push (bd_lists s) (FreeHead k) (Blk q)\<rparr>
           in bd_split_down fk k p s
      else s)"

definition bd_malloc :: "u64 \<Rightarrow> bd_st \<Rightarrow> (u64, bd_st) outcome" where
  "bd_malloc nbytes s =
     (case firstk nbytes of None \<Rightarrow> Undef ''firstk: endless loop''
      | Some fk \<Rightarrow>
        (case List.find (\<lambda>k. \<not> lst_empty (bd_lists s) (FreeHead k)) [fk..<nsizes s] of
           None \<Rightarrow> Done 0 s
         | Some k \<Rightarrow>
           (case lst_pop (bd_lists s) (FreeHead k) of
              Done (Blk p) h \<Rightarrow>
                let s = s\<lparr>bd_lists := h\<rparr>;
                    s = set_alloc bd_set k (blk_index s k p) s
                in Done p (bd_split_down fk k p s)
            | Panic m \<Rightarrow> Panic m
            | _ \<Rightarrow> Undef ''bd_malloc: not a block'')))"

text \<open>
  \<open>size\<close>: its last round looks at \<open>bd_sizes[nsizes]\<close>, which is not there.
\<close>

fun size_scan :: "u64 \<Rightarrow> nat list \<Rightarrow> bd_st \<Rightarrow> (nat, bd_st) outcome" where
  "size_scan p [] s = Done 0 s"
| "size_scan p (k # ks) s =
     (if k + 1 \<ge> nsizes s then Undef ''size: bd_sizes[nsizes]''
      else if bd_isset (bd_split s (k + 1)) (blk_index s (k + 1) p) then Done k s
      else size_scan p ks s)"

definition bd_size :: "u64 \<Rightarrow> bd_st \<Rightarrow> (nat, bd_st) outcome" where
  "bd_size p s = size_scan p [0..<nsizes s] s"

text \<open>The loop of \<open>bd_free\<close>, with \<open>n\<close> sizes to go: where it stops and with which block.\<close>

fun bd_merge :: "nat \<Rightarrow> nat \<Rightarrow> u64 \<Rightarrow> bd_st \<Rightarrow> nat \<times> u64 \<times> bd_st" where
  "bd_merge 0 k p s = (k, p, s)"
| "bd_merge (Suc n) k p s =
     (let bi = blk_index s k p; buddy = buddy_of bi;
          s = set_alloc bd_clear k bi s
      in if bd_isset (bd_alloc s k) buddy then (k, p, s)
         else let q = addr s k buddy;
                  s = s\<lparr>bd_lists := lst_remove (bd_lists s) (Blk q)\<rparr>;
                  p = (if buddy mod 2 = 0 then q else p);
                  s = set_split bd_clear (k + 1) (blk_index s (k + 1) p) s
              in bd_merge n (k + 1) p s)"

definition bd_free :: "u64 \<Rightarrow> bd_st \<Rightarrow> (unit, bd_st) outcome" where
  "bd_free p s = bnd (bd_size p s) (\<lambda>k s.
     case bd_merge (MAXSIZE s - k) k p s of (k, p, s) \<Rightarrow>
     Done () (s\<lparr>bd_lists := lst_push (bd_lists s) (FreeHead k) (Blk p)\<rparr>))"

section \<open>Initialisation\<close>

fun log2 :: "nat \<Rightarrow> nat" where
  "log2 n = (if n > 1 then log2 (n div 2) + 1 else 0)"

declare log2.simps [simp del]

definition bd_mark_size :: "u64 \<Rightarrow> u64 \<Rightarrow> nat \<Rightarrow> bd_st \<Rightarrow> (unit, bd_st) outcome" where
  "bd_mark_size start stop k s =
     each (\<lambda>bi s. Done () (set_alloc bd_set k bi (if k > 0 then set_split bd_set k bi s else s)))
       [blk_index s k start..<blk_index_next s k stop] s"

definition bd_mark :: "u64 \<Rightarrow> u64 \<Rightarrow> bd_st \<Rightarrow> (unit, bd_st) outcome" where
  "bd_mark start stop s =
     (if unat start mod LEAF_SIZE \<noteq> 0 \<or> unat stop mod LEAF_SIZE \<noteq> 0 then Panic ''bd_mark''
      else each (bd_mark_size start stop) [0..<nsizes s] s)"

definition bd_initfree_pair :: "nat \<Rightarrow> nat \<Rightarrow> bd_st \<Rightarrow> nat \<times> bd_st" where
  "bd_initfree_pair k bi s =
     (let buddy = buddy_of bi
      in if bd_isset (bd_alloc s k) bi \<noteq> bd_isset (bd_alloc s k) buddy
         then (BLK_SIZE k, s\<lparr>bd_lists := lst_push (bd_lists s) (FreeHead k)
                 (Blk (addr s k (if bd_isset (bd_alloc s k) bi then buddy else bi)))\<rparr>)
         else (0, s))"

fun bd_initfree_from :: "u64 \<Rightarrow> u64 \<Rightarrow> nat list \<Rightarrow> nat \<Rightarrow> bd_st \<Rightarrow> nat \<times> bd_st" where
  "bd_initfree_from l r [] free s = (free, s)"
| "bd_initfree_from l r (k # ks) free s =
     (let left = blk_index_next s k l; right = blk_index s k r;
          (f1, s) = bd_initfree_pair k left s
      in if right \<le> left then bd_initfree_from l r ks (free + f1) s
         else let (f2, s) = bd_initfree_pair k right s in bd_initfree_from l r ks (free + f1 + f2) s)"

definition bd_initfree :: "u64 \<Rightarrow> u64 \<Rightarrow> bd_st \<Rightarrow> nat \<times> bd_st" where
  "bd_initfree l r s = bd_initfree_from l r [0..<MAXSIZE s] 0 s"

definition bd_mark_data_structures :: "u64 \<Rightarrow> bd_st \<Rightarrow> (nat, bd_st) outcome" where
  "bd_mark_data_structures p s =
     (let meta = unat (p - bd_base s) in bnd (bd_mark (bd_base s) p s) (\<lambda>_ s. Done meta s))"

definition bd_mark_unavailable :: "u64 \<Rightarrow> bd_st \<Rightarrow> (int, bd_st) outcome" where
  "bd_mark_unavailable stop s =
     (let u = int (BLK_SIZE (MAXSIZE s)) - int (unat (stop - bd_base s));
          u = (if u > 0 then int (ROUNDUP (nat u) LEAF_SIZE) else u);
          bd_end = bd_base s + of_nat (BLK_SIZE (MAXSIZE s)) - of_int u
      in bnd (bd_mark bd_end (bd_base s + of_nat (BLK_SIZE (MAXSIZE s))) s) (\<lambda>_ s. Done u s))"

text \<open>The bytes of the bit array of size \<open>k\<close>, and the list heads and arrays that \<open>bd_init\<close> sets up.\<close>

definition vec_bytes :: "bd_st \<Rightarrow> nat \<Rightarrow> nat" where
  "vec_bytes s k = ROUNDUP (NBLK s k) 8 div 8"

definition bd_setup :: "bd_st \<Rightarrow> bd_st" where
  "bd_setup s = fold (\<lambda>k s. s\<lparr>bd_lists := lst_init (bd_lists s) (FreeHead k), bd_alloc := (bd_alloc s)(k := (\<lambda>_. 0)),
     bd_split := (bd_split s)(k := (\<lambda>_. 0))\<rparr>) [0..<nsizes s] s"

definition bd_init :: "u64 \<Rightarrow> u64 \<Rightarrow> bd_st \<Rightarrow> (unit, bd_st) outcome" where
  "bd_init base stop s =
     (let p = of_nat (ROUNDUP (unat base) LEAF_SIZE);
          room = unat (stop - p);
          s = s\<lparr>bd_base := p, nsizes := log2 (room div LEAF_SIZE) + 1\<rparr>;
          s = (if room > BLK_SIZE (MAXSIZE s) then s\<lparr>nsizes := nsizes s + 1\<rparr> else s);
          s = bd_setup s;
          meta_end = unat p + 32 * nsizes s + sum_list (map (vec_bytes s) [0..<nsizes s])
            + sum_list (map (vec_bytes s) [1..<nsizes s]);
          p = of_nat (ROUNDUP meta_end LEAF_SIZE)
      in bnd (bd_mark_data_structures p s) (\<lambda>meta s.
         bnd (bd_mark_unavailable stop s) (\<lambda>unavailable s.
         let bd_end = bd_base s + of_nat (BLK_SIZE (MAXSIZE s)) - of_int unavailable;
             (free, s) = bd_initfree p bd_end s
         in if int free \<noteq> int (BLK_SIZE (MAXSIZE s)) - int meta - unavailable then Panic ''bd_init: free mem''
            else Done () s)))"

section \<open>The size of a request\<close>

lemma firstk_from_spec:
  assumes "unat n \<le> 2 ^ 63" and "k + 4 \<le> 63" and "k = 0 \<or> BLK_SIZE (k - 1) < unat n"
  shows "\<exists>j. firstk_from n k (of_nat (BLK_SIZE k)) = Some j \<and> unat n \<le> BLK_SIZE j \<and> (j = 0 \<or> BLK_SIZE (j - 1) < unat n)"
  using assms(2,3)
proof (induction "63 - k" arbitrary: k rule: less_induct)
  case less
  have e: "BLK_SIZE k = 2 ^ (k + 4)" for k by (simp add: BLK_SIZE_def LEAF_SIZE_def power_add)
  have "(2 :: nat) ^ (k + 4) \<le> 2 ^ 63" using less.prems(1) by (intro power_increasing) simp_all
  then have "BLK_SIZE k < 2 ^ LENGTH(64)" unfolding e by (rule le_less_trans) simp
  then have u: "unat (of_nat (BLK_SIZE k) :: u64) = BLK_SIZE k" by (simp only: unat_of_nat mod_less)
  show ?case
  proof (cases "BLK_SIZE k < unat n")
    case True
    have "(2 :: nat) ^ (k + 4) < 2 ^ 63" using True assms(1) by (simp add: e)
    then have "k + 4 < 63" by (rule power_less_imp_less_exp [rotated]) simp
    then have k: "k + 5 \<le> 63" by simp
    have "firstk_from n k (of_nat (BLK_SIZE k)) = firstk_from n (k + 1) (of_nat (BLK_SIZE (k + 1)))"
    proof -
      have "(of_nat (BLK_SIZE k) :: u64) < n" using True by (simp add: word_less_nat_alt u)
      moreover have "of_nat (BLK_SIZE k) * 2 = (of_nat (BLK_SIZE (k + 1)) :: u64)" by (simp add: BLK_SIZE_def mult_ac)
      ultimately show ?thesis by (subst firstk_from.simps) (simp only: if_True)
    qed
    then show ?thesis using less.hyps [of "k + 1"] k True by simp
  next
    case False
    then show ?thesis using less.prems(2) by (subst firstk_from.simps) (auto simp: word_less_nat_alt u)
  qed
qed



end
