(* ===== verification/Xv6_Spinlock.thy ===== *)
theory Xv6_Spinlock
  imports Xv6_Prelude
begin

text \<open>
  \<open>kernel/spinlock.c\<close>: spin locks and the interrupt-disabling discipline under them. The
  operations are functions of the executing CPU (\<open>cpuid()\<close> reads a hardware register). The
  second part runs them concurrently: each CPU executes \<open>acquire\<close> and \<open>release\<close> one atomic
  access at a time, interleaved with all others, and the theorems give mutual exclusion and
  that a CPU holding a lock has its interrupts off. This is what licenses the other theories to
  treat a critical section as one step.
\<close>

section \<open>State\<close>

text \<open>\<open>struct spinlock\<close>; \<open>lk_cpu\<close> is the CPU that holds the lock, if any.\<close>

record spinlock =
  lk_locked :: bool
  lk_name :: string
  lk_cpu :: "nat option"
  lk_n :: u32
  lk_nts :: u32

text \<open>The part of \<open>struct cpu\<close> used here, and the interrupt-enable bit of \<open>sstatus\<close>.\<close>

record cpu =
  noff :: int
  intena :: bool
  intr :: bool

text \<open>Locks by address, the registry \<open>locks[0..nlock)\<close>, and the CPUs.\<close>

record spin_st =
  lks :: "nat \<Rightarrow> spinlock"
  lock_list :: "nat list"
  cpus :: "nat \<Rightarrow> cpu"

definition NLOCK :: nat where "NLOCK = 1000"

definition upd_lk :: "nat \<Rightarrow> (spinlock \<Rightarrow> spinlock) \<Rightarrow> spin_st \<Rightarrow> spin_st" where
  "upd_lk l f s = s\<lparr>lks := (lks s)(l := f (lks s l))\<rparr>"

definition upd_cpu :: "nat \<Rightarrow> (cpu \<Rightarrow> cpu) \<Rightarrow> spin_st \<Rightarrow> spin_st" where
  "upd_cpu c f s = s\<lparr>cpus := (cpus s)(c := f (cpus s c))\<rparr>"

section \<open>Operations\<close>

definition initlock :: "nat \<Rightarrow> string \<Rightarrow> spin_st \<Rightarrow> (unit, spin_st) outcome" where
  "initlock l name s =
     (let s = upd_lk l (\<lambda>_. \<lparr>lk_locked = False, lk_name = name, lk_cpu = None, lk_n = 0, lk_nts = 0\<rparr>) s
      in if length (lock_list s) \<ge> NLOCK then Panic ''initlock''
         else Done () (s\<lparr>lock_list := lock_list s @ [l]\<rparr>))"

definition holding :: "nat \<Rightarrow> nat \<Rightarrow> spin_st \<Rightarrow> bool" where
  "holding c l s \<longleftrightarrow> lk_locked (lks s l) \<and> lk_cpu (lks s l) = Some c"

definition push_off :: "nat \<Rightarrow> spin_st \<Rightarrow> spin_st" where
  "push_off c s =
     (let old = intr (cpus s c);
          s = (if old then upd_cpu c (\<lambda>p. p\<lparr>intr := False\<rparr>) s else s);
          s = (if noff (cpus s c) = 0 then upd_cpu c (\<lambda>p. p\<lparr>intena := old\<rparr>) s else s)
      in upd_cpu c (\<lambda>p. p\<lparr>noff := noff p + 1\<rparr>) s)"

definition pop_off :: "nat \<Rightarrow> spin_st \<Rightarrow> (unit, spin_st) outcome" where
  "pop_off c s =
     (if intr (cpus s c) then Panic ''pop_off - interruptible''
      else if noff (cpus s c) < 1 then Panic ''pop_off''
      else let s = upd_cpu c (\<lambda>p. p\<lparr>noff := noff p - 1\<rparr>) s
           in Done () (if noff (cpus s c) = 0 \<and> intena (cpus s c)
                       then upd_cpu c (\<lambda>p. p\<lparr>intr := True\<rparr>) s else s))"

text \<open>
  \<open>acquire\<close> up to the loop; one iteration of the loop (the atomic swap returns the old value,
  and a failed attempt is counted); the record of the holder after it.
\<close>

definition acquire_enter :: "nat \<Rightarrow> nat \<Rightarrow> spin_st \<Rightarrow> (unit, spin_st) outcome" where
  "acquire_enter c l s =
     (let s = push_off c s
      in if holding c l s then Panic ''acquire''
         else Done () (upd_lk l (\<lambda>k. k\<lparr>lk_n := lk_n k + 1\<rparr>) s))"

definition acquire_try :: "nat \<Rightarrow> spin_st \<Rightarrow> bool \<times> spin_st" where
  "acquire_try l s =
     (if lk_locked (lks s l) then (False, upd_lk l (\<lambda>k. k\<lparr>lk_nts := lk_nts k + 1\<rparr>) s)
      else (True, upd_lk l (\<lambda>k. k\<lparr>lk_locked := True\<rparr>) s))"

definition acquire_got :: "nat \<Rightarrow> nat \<Rightarrow> spin_st \<Rightarrow> spin_st" where
  "acquire_got c l s = upd_lk l (\<lambda>k. k\<lparr>lk_cpu := Some c\<rparr>) s"

text \<open>
  The whole of \<open>acquire\<close> with the CPU running alone: \<open>fuel\<close> bounds the iterations of the
  loop, which does not end while another CPU holds the lock.
\<close>

fun acquire_spin :: "nat \<Rightarrow> nat \<Rightarrow> spin_st \<Rightarrow> spin_st option" where
  "acquire_spin 0 l s = None"
| "acquire_spin (Suc fuel) l s = (case acquire_try l s of (got, s) \<Rightarrow> if got then Some s else acquire_spin fuel l s)"

definition acquire :: "nat \<Rightarrow> nat \<Rightarrow> nat \<Rightarrow> spin_st \<Rightarrow> (unit, spin_st) outcome" where
  "acquire fuel c l s =
     bnd (acquire_enter c l s) (\<lambda>_ s.
       case acquire_spin fuel l s of None \<Rightarrow> Undef ''still spinning'' | Some s \<Rightarrow> Done () (acquire_got c l s))"

definition release_enter :: "nat \<Rightarrow> nat \<Rightarrow> spin_st \<Rightarrow> (unit, spin_st) outcome" where
  "release_enter c l s =
     (if \<not> holding c l s then Panic ''release'' else Done () (upd_lk l (\<lambda>k. k\<lparr>lk_cpu := None\<rparr>) s))"

definition release_drop :: "nat \<Rightarrow> spin_st \<Rightarrow> spin_st" where
  "release_drop l s = upd_lk l (\<lambda>k. k\<lparr>lk_locked := False\<rparr>) s"

definition release :: "nat \<Rightarrow> nat \<Rightarrow> spin_st \<Rightarrow> (unit, spin_st) outcome" where
  "release c l s = bnd (release_enter c l s) (\<lambda>_ s. pop_off c (release_drop l s))"

text \<open>
  Statistics. \<open>print_lock\<close> gives the line it prints, as name and counters; \<open>sys_ntas\<close> takes
  the argument that \<open>argint\<close> fetched (\<open>None\<close> when that failed) and returns the result with
  the lines printed, if any: those under the first heading and those under the second.
\<close>

definition print_lock :: "spinlock \<Rightarrow> (string \<times> u32 \<times> u32) list" where
  "print_lock k = (if lk_n k > 0 then [(lk_name k, lk_nts k, lk_n k)] else [])"

definition ntas_reset :: "spin_st \<Rightarrow> spin_st" where
  "ntas_reset s = fold (\<lambda>l s. upd_lk l (\<lambda>k. k\<lparr>lk_nts := 0, lk_n := 0\<rparr>) s) (lock_list s) s"

definition ntas_watched :: "spinlock \<Rightarrow> bool" where
  "ntas_watched k \<longleftrightarrow> take 6 (lk_name k) = ''bcache'' \<or> take 4 (lk_name k) = ''kmem''"

text \<open>One round of the search for the most contended lock below \<open>bound\<close>, from candidate 0.\<close>

definition ntas_top :: "spinlock list \<Rightarrow> u32 \<Rightarrow> nat" where
  "ntas_top ks bound =
     fold (\<lambda>i tp. if lk_nts (ks ! i) > lk_nts (ks ! tp) \<and> lk_nts (ks ! i) < bound then i else tp)
       [0..<length ks] 0"

fun ntas_rounds :: "nat \<Rightarrow> spinlock list \<Rightarrow> u32 \<Rightarrow> (string \<times> u32 \<times> u32) list" where
  "ntas_rounds 0 ks bound = []"
| "ntas_rounds (Suc n) ks bound =
     (let tp = ks ! ntas_top ks bound in print_lock tp @ ntas_rounds n ks (lk_nts tp))"

definition sys_ntas :: "int option \<Rightarrow> spin_st
    \<Rightarrow> (int \<times> ((string \<times> u32 \<times> u32) list \<times> (string \<times> u32 \<times> u32) list) option, spin_st) outcome" where
  "sys_ntas arg s =
     (case arg of None \<Rightarrow> Done (-1, None) s
      | Some zero \<Rightarrow>
          if zero = 0 then Done (0, None) (ntas_reset s)
          else let ks = map (lks s) (lock_list s); ws = filter ntas_watched ks
               in if ks = [] then Undef ''locks[0] is null''
                  else Done (sum_list (map (uint \<circ> lk_nts) ws),
                             Some (concat (map print_lock ws), ntas_rounds 5 ks 100000000)) s)"

section \<open>The CPUs running together\<close>

text \<open>Where a CPU is: outside the lock code, or between two atomic accesses of it.\<close>

datatype lpc =
    Run
  | AcqSpin nat     \<comment> \<open>in the loop of \<open>acquire\<close>\<close>
  | AcqGot nat      \<comment> \<open>after the swap that took the lock\<close>
  | RelCleared nat  \<comment> \<open>in \<open>release\<close>, \<open>lk->cpu\<close> cleared\<close>
  | RelDropped      \<comment> \<open>in \<open>release\<close>, before \<open>pop_off\<close>\<close>

type_synonym conf = "(nat \<Rightarrow> lpc) \<times> spin_st"

inductive lock_step :: "conf \<Rightarrow> conf \<Rightarrow> bool" where
  enter: "pc c = Run \<Longrightarrow> acquire_enter c l s = Done () s' \<Longrightarrow> lock_step (pc, s) (pc(c := AcqSpin l), s')"
| spin: "pc c = AcqSpin l \<Longrightarrow> acquire_try l s = (False, s') \<Longrightarrow> lock_step (pc, s) (pc, s')"
| take_lock: "pc c = AcqSpin l \<Longrightarrow> acquire_try l s = (True, s') \<Longrightarrow> lock_step (pc, s) (pc(c := AcqGot l), s')"
| got: "pc c = AcqGot l \<Longrightarrow> lock_step (pc, s) (pc(c := Run), acquire_got c l s)"
| rel: "pc c = Run \<Longrightarrow> release_enter c l s = Done () s' \<Longrightarrow> lock_step (pc, s) (pc(c := RelCleared l), s')"
| drop: "pc c = RelCleared l \<Longrightarrow> lock_step (pc, s) (pc(c := RelDropped), release_drop l s)"
| pop: "pc c = RelDropped \<Longrightarrow> pop_off c s = Done () s' \<Longrightarrow> lock_step (pc, s) (pc(c := Run), s')"
| sti: "pc c = Run \<Longrightarrow> noff (cpus s c) = 0 \<Longrightarrow> lock_step (pc, s) (pc, upd_cpu c (\<lambda>p. p\<lparr>intr := b\<rparr>) s)"

text \<open>Boot: all locks free, no CPU in the lock code, nothing disabled by \<open>push_off\<close>.\<close>

definition boot_conf :: "conf \<Rightarrow> bool" where
  "boot_conf C \<longleftrightarrow> (\<forall>c. fst C c = Run) \<and> (\<forall>l. \<not> lk_locked (lks (snd C) l) \<and> lk_cpu (lks (snd C) l) = None)
     \<and> (\<forall>c. noff (cpus (snd C) c) = 0)"

inductive reachable :: "conf \<Rightarrow> bool" where
  boot: "boot_conf C \<Longrightarrow> reachable C"
| step: "reachable C \<Longrightarrow> lock_step C C' \<Longrightarrow> reachable C'"

text \<open>The CPU owns the lock: from the swap that took it to the store that drops it.\<close>

definition owns :: "conf \<Rightarrow> nat \<Rightarrow> nat \<Rightarrow> bool" where
  "owns C c l \<longleftrightarrow> fst C c = AcqGot l \<or> fst C c = RelCleared l \<or> lk_cpu (lks (snd C) l) = Some c"

text \<open>The \<open>push_off\<close> calls not yet matched, beside those of the owned locks.\<close>

definition extra :: "lpc \<Rightarrow> nat" where
  "extra p = (case p of AcqSpin l \<Rightarrow> 1 | RelDropped \<Rightarrow> 1 | _ \<Rightarrow> 0)"

definition lock_inv :: "conf \<Rightarrow> bool" where
  "lock_inv C \<longleftrightarrow>
     (\<forall>l. lk_locked (lks (snd C) l) \<longleftrightarrow> (\<exists>c. owns C c l)) \<and>
     (\<forall>l c d. owns C c l \<longrightarrow> owns C d l \<longrightarrow> c = d) \<and>
     (\<forall>c l. fst C c = AcqGot l \<or> fst C c = RelCleared l \<longrightarrow> lk_cpu (lks (snd C) l) = None) \<and>
     (\<forall>c. finite {l. owns C c l} \<and> noff (cpus (snd C) c) = int (card {l. owns C c l}) + int (extra (fst C c))) \<and>
     (\<forall>c. noff (cpus (snd C) c) > 0 \<longrightarrow> \<not> intr (cpus (snd C) c))"

lemma lks_upd [simp]:
  "lks (upd_lk l f s) = (lks s)(l := f (lks s l))" "cpus (upd_lk l f s) = cpus s"
  "cpus (upd_cpu c g s) = (cpus s)(c := g (cpus s c))" "lks (upd_cpu c g s) = lks s"
  "lock_list (upd_lk l f s) = lock_list s" "lock_list (upd_cpu c g s) = lock_list s"
  by (simp_all add: upd_lk_def upd_cpu_def)

lemma push_off_simps:
  "lks (push_off c s) = lks s"
  "noff (cpus (push_off c s) d) = (if d = c then noff (cpus s c) + 1 else noff (cpus s d))"
  "intr (cpus (push_off c s) d) = (d \<noteq> c \<and> intr (cpus s d))"
  "intena (cpus (push_off c s) d) = (if d = c \<and> noff (cpus s c) = 0 then intr (cpus s c) else intena (cpus s d))"
  by (auto simp: push_off_def Let_def)

lemma pop_off_simps:
  assumes "pop_off c s = Done () s'"
  shows "lks s' = lks s" "noff (cpus s c) \<ge> 1" "\<not> intr (cpus s c)"
    "noff (cpus s' d) = (if d = c then noff (cpus s c) - 1 else noff (cpus s d))"
    "intr (cpus s' d) = (if d = c then noff (cpus s c) = 1 \<and> intena (cpus s c) else intr (cpus s d))"
    "intena (cpus s' d) = intena (cpus s d)"
  using assms by (auto simp: pop_off_def Let_def split: if_splits)

text \<open>The invariant is about who owns what, the counters and the interrupt bits; a step that keeps
  ownership keeps it if it keeps the counters in line.\<close>

lemma lock_inv_same_owner:
  assumes "lock_inv C" and "\<And>c l. owns C' c l = owns C c l"
    and "\<And>l. lk_locked (lks (snd C') l) = lk_locked (lks (snd C) l)"
    and "\<And>c l. fst C' c = AcqGot l \<or> fst C' c = RelCleared l \<Longrightarrow> lk_cpu (lks (snd C') l) = None"
    and "\<And>c. noff (cpus (snd C') c) - int (extra (fst C' c)) = noff (cpus (snd C) c) - int (extra (fst C c))"
    and "\<And>c. noff (cpus (snd C') c) > 0 \<Longrightarrow> \<not> intr (cpus (snd C') c)"
  shows "lock_inv C'"
proof -
  have "noff (cpus (snd C') c) = int (card {l. owns C c l}) + int (extra (fst C' c))" for c
  proof -
    have "noff (cpus (snd C) c) = int (card {l. owns C c l}) + int (extra (fst C c))"
      using assms(1) by (simp add: lock_inv_def)
    with assms(5) [of c] show ?thesis by linarith
  qed
  moreover have "owns C' = owns C" using assms(2) by (intro ext)
  ultimately show ?thesis using assms(1) unfolding lock_inv_def by (simp add: assms(3,4,6))
qed

lemma lock_invD:
  assumes "lock_inv C"
  shows "lk_locked (lks (snd C) l) \<longleftrightarrow> (\<exists>c. owns C c l)"
    and "owns C c l \<Longrightarrow> owns C d l \<Longrightarrow> c = d"
    and "fst C c = AcqGot l \<Longrightarrow> lk_cpu (lks (snd C) l) = None"
    and "fst C c = RelCleared l \<Longrightarrow> lk_cpu (lks (snd C) l) = None"
    and "finite {l. owns C c l}" "noff (cpus (snd C) c) = int (card {l. owns C c l}) + int (extra (fst C c))"
    and "noff (cpus (snd C) c) > 0 \<Longrightarrow> \<not> intr (cpus (snd C) c)"
  using assms unfolding lock_inv_def by blast+

lemma lock_inv_enter:
  assumes "lock_inv (pc, s)" and "pc c = Run" and "acquire_enter c l s = Done () s'"
  shows "lock_inv (pc(c := AcqSpin l), s')"
proof -
  have "s' = upd_lk l (\<lambda>k. k\<lparr>lk_n := lk_n k + 1\<rparr>) (push_off c s)"
    using assms(3) by (auto simp: acquire_enter_def Let_def split: if_splits)
  then show ?thesis
    using assms(2) lock_invD(3,4,7) [OF assms(1)]
    by (intro lock_inv_same_owner [OF assms(1)])
      (auto simp: owns_def push_off_simps extra_def split: if_splits)
qed

lemma lock_inv_spin:
  assumes "lock_inv (pc, s)" and "acquire_try l s = (False, s')"
  shows "lock_inv (pc, s')"
proof -
  have "s' = upd_lk l (\<lambda>k. k\<lparr>lk_nts := lk_nts k + 1\<rparr>) s"
    using assms(2) by (auto simp: acquire_try_def split: if_splits)
  then show ?thesis
    using lock_invD(3,4,7) [OF assms(1)]
    by (intro lock_inv_same_owner [OF assms(1)]) (auto simp: owns_def split: if_splits)
qed

lemma lock_inv_take:
  assumes inv: "lock_inv (pc, s)" and pc: "pc c = AcqSpin l" and "acquire_try l s = (True, s')"
  shows "lock_inv (pc(c := AcqGot l), s')"
proof -
  have s': "s' = upd_lk l (\<lambda>k. k\<lparr>lk_locked := True\<rparr>) s" and free: "\<not> lk_locked (lks s l)"
    using assms(3) by (auto simp: acquire_try_def split: if_splits)
  let ?C = "(pc, s)" and ?C' = "(pc(c := AcqGot l), s')"
  have none: "\<not> owns ?C d l" for d using lock_invD(1) [OF inv, of l] free by simp
  then have cpu: "lk_cpu (lks s l) = None" by (cases "lk_cpu (lks s l)") (auto simp: owns_def)
  have own: "owns ?C' d k \<longleftrightarrow> owns ?C d k \<or> (d = c \<and> k = l)" for d k
    using pc by (auto simp: owns_def s')
  then have set_c: "{k. owns ?C' d k} = (if d = c then insert l {k. owns ?C d k} else {k. owns ?C d k})" for d
    by auto
  have "l \<notin> {k. owns ?C c k}" using none by simp
  then have "card (insert l {k. owns ?C c k}) = Suc (card {k. owns ?C c k})"
    using lock_invD(5) [OF inv, of c] by simp
  then have "finite {k. owns ?C' d k} \<and> noff (cpus s' d) = int (card {k. owns ?C' d k}) + int (extra ((pc(c := AcqGot l)) d))" for d
    using lock_invD(5,6) [OF inv, of d] pc unfolding set_c by (auto simp: s' extra_def)
  moreover have "owns ?C' d k \<Longrightarrow> owns ?C' e k \<Longrightarrow> d = e" for d e k
    using none lock_invD(2) [OF inv, of d k e] by (auto simp: own)
  moreover have "lk_locked (lks s' k) \<longleftrightarrow> (\<exists>d. owns ?C' d k)" for k
    using lock_invD(1) [OF inv, of k] unfolding own by (auto simp: s')
  moreover have "lk_cpu (lks s' k) = None" if "(pc(c := AcqGot l)) d = AcqGot k \<or> (pc(c := AcqGot l)) d = RelCleared k" for d k
    using that lock_invD(3,4) [OF inv, of d k] cpu by (auto simp: s' split: if_splits)
  moreover have "noff (cpus s' d) > 0 \<Longrightarrow> \<not> intr (cpus s' d)" for d
    using lock_invD(7) [OF inv, of d] by (simp add: s')
  ultimately show ?thesis unfolding lock_inv_def fst_conv snd_conv by blast
qed

lemma lock_inv_got:
  assumes inv: "lock_inv (pc, s)" and pc: "pc c = AcqGot l"
  shows "lock_inv (pc(c := Run), acquire_got c l s)"
proof -
  have "lk_cpu (lks s l) = None" using lock_invD(3) [OF inv] pc by simp
  moreover have "d = c" if "pc d = AcqGot l \<or> pc d = RelCleared l" for d
    using lock_invD(2) [OF inv, of d l c] that pc by (auto simp: owns_def)
  ultimately show ?thesis
    using lock_invD(3,4,7) [OF inv] pc
    by (intro lock_inv_same_owner [OF inv]) (auto simp: owns_def acquire_got_def extra_def split: if_splits)
qed

lemma lock_inv_rel:
  assumes inv: "lock_inv (pc, s)" and pc: "pc c = Run" and "release_enter c l s = Done () s'"
  shows "lock_inv (pc(c := RelCleared l), s')"
proof -
  have s': "s' = upd_lk l (\<lambda>k. k\<lparr>lk_cpu := None\<rparr>) s" and h: "lk_cpu (lks s l) = Some c"
    using assms(3) by (auto simp: release_enter_def holding_def split: if_splits)
  then show ?thesis
    using lock_invD(3,4,7) [OF inv] pc
    by (intro lock_inv_same_owner [OF inv]) (auto simp: owns_def extra_def split: if_splits)
qed

lemma lock_inv_drop:
  assumes inv: "lock_inv (pc, s)" and pc: "pc c = RelCleared l"
  shows "lock_inv (pc(c := RelDropped), release_drop l s)"
proof -
  let ?C = "(pc, s)" and ?C' = "(pc(c := RelDropped), release_drop l s)"
  have c: "owns ?C c l" "lk_cpu (lks s l) = None" using pc lock_invD(4) [OF inv] by (auto simp: owns_def)
  then have other: "\<not> owns ?C d l" if "d \<noteq> c" for d using lock_invD(2) [OF inv] that by blast
  have own: "owns ?C' d k \<longleftrightarrow> owns ?C d k \<and> k \<noteq> l" for d k
    using pc c(2) other [of d] by (cases "k = l"; cases "d = c") (auto simp: owns_def release_drop_def)
  then have set_c: "{k. owns ?C' d k} = {k. owns ?C d k} - {l}" for d by auto
  have "{k. owns ?C d k} - {l} = {k. owns ?C d k}" if "d \<noteq> c" for d using other [of d] that by auto
  moreover have "int (card ({k. owns ?C c k} - {l})) = int (card {k. owns ?C c k}) - 1"
    using c(1) lock_invD(5) [OF inv, of c] card_gt_0_iff [of "{k. owns ?C c k}"] by (auto simp: of_nat_diff Suc_leI)
  ultimately have "finite {k. owns ?C' d k} \<and> noff (cpus s d) = int (card {k. owns ?C' d k}) + int (extra ((pc(c := RelDropped)) d))" for d
    using lock_invD(5,6) [OF inv, of d] pc unfolding set_c by (auto simp: extra_def)
  moreover have "owns ?C' d k \<Longrightarrow> owns ?C' e k \<Longrightarrow> d = e" for d e k
    using lock_invD(2) [OF inv, of d k e] by (simp add: own)
  moreover have "lk_locked (lks (release_drop l s) k) \<longleftrightarrow> (\<exists>d. owns ?C' d k)" for k
    using lock_invD(1) [OF inv, of k] unfolding own by (auto simp: release_drop_def)
  moreover have "lk_cpu (lks (release_drop l s) k) = None"
    if "(pc(c := RelDropped)) d = AcqGot k \<or> (pc(c := RelDropped)) d = RelCleared k" for d k
    using that lock_invD(3,4) [OF inv, of d k] by (auto simp: release_drop_def split: if_splits)
  moreover have "noff (cpus (release_drop l s) d) > 0 \<Longrightarrow> \<not> intr (cpus (release_drop l s) d)" for d
    using lock_invD(7) [OF inv, of d] by (simp add: release_drop_def)
  ultimately show ?thesis unfolding lock_inv_def fst_conv snd_conv by (simp add: release_drop_def)
qed

lemma lock_inv_pop:
  assumes inv: "lock_inv (pc, s)" and pc: "pc c = RelDropped" and "pop_off c s = Done () s'"
  shows "lock_inv (pc(c := Run), s')"
proof -
  note p = pop_off_simps [OF assms(3)]
  have "noff (cpus s c) \<ge> 1 \<and> (noff (cpus s' c) > 0 \<longrightarrow> \<not> intr (cpus s' c))"
    using p(2,4,5) by auto
  then show ?thesis
    using lock_invD(3,4,7) [OF inv] pc
    by (intro lock_inv_same_owner [OF inv]) (auto simp: owns_def extra_def p(1,4,5) split: if_splits)
qed

lemma lock_inv_sti:
  assumes inv: "lock_inv (pc, s)" and "noff (cpus s c) = 0"
  shows "lock_inv (pc, upd_cpu c (\<lambda>p. p\<lparr>intr := b\<rparr>) s)"
  using assms(2) lock_invD(3,4,7) [OF inv]
  by (intro lock_inv_same_owner [OF inv]) (auto simp: owns_def split: if_splits)

lemmas lock_inv_steps = lock_inv_enter lock_inv_spin lock_inv_take lock_inv_got lock_inv_rel
  lock_inv_drop lock_inv_pop lock_inv_sti

lemma lock_inv_boot: "boot_conf C \<Longrightarrow> lock_inv C"
  by (auto simp: boot_conf_def lock_inv_def owns_def extra_def)

lemma reachable_lock_inv: "reachable C \<Longrightarrow> lock_inv C"
proof (induction rule: reachable.induct)
  case (step C C')
  from step(2,3) show ?case by (cases rule: lock_step.cases) (auto intro: lock_inv_steps)
qed (rule lock_inv_boot)

text \<open>
  C3: mutual exclusion. In every interleaving of the CPUs' lock code from boot, at most one CPU
  owns a lock (from the swap that took it to the store that drops it), a lock is marked locked
  exactly when some CPU owns it, and a CPU that owns a lock has its interrupts disabled.
\<close>

theorem spinlock_mutual_exclusion:
  assumes "reachable C"
  shows "(\<forall>l c d. owns C c l \<and> owns C d l \<longrightarrow> c = d)
     \<and> (\<forall>l. lk_locked (lks (snd C) l) \<longleftrightarrow> (\<exists>c. owns C c l))
     \<and> (\<forall>l c. owns C c l \<longrightarrow> \<not> intr (cpus (snd C) c))"
proof -
  have inv: "lock_inv C" using assms by (rule reachable_lock_inv)
  have "\<not> intr (cpus (snd C) c)" if "owns C c l" for c l
  proof -
    have "card {l. owns C c l} > 0" using that lock_invD(5) [OF inv] by (auto simp: card_gt_0_iff)
    then show ?thesis using lock_invD(6,7) [OF inv, of c] by simp
  qed
  with lock_invD(1,2) [OF inv] show ?thesis by blast
qed

section \<open>Matched calls\<close>

text \<open>
  C37: \<open>push_off\<close> and \<open>pop_off\<close> nest. From a state in which a positive depth means interrupts
  off, any number of \<open>push_off\<close> calls followed by the same number of \<open>pop_off\<close> calls returns
  without a panic, with the nesting depth and the interrupt bit as before, and no lock touched.
\<close>

theorem push_pop_nest:
  assumes "noff (cpus s c) \<ge> 0" and "noff (cpus s c) > 0 \<longrightarrow> \<not> intr (cpus s c)"
  shows "\<exists>s'. each (\<lambda>_ s. pop_off c s) [0..<n] ((push_off c ^^ n) s) = Done () s'
     \<and> noff (cpus s' c) = noff (cpus s c) \<and> intr (cpus s' c) = intr (cpus s c) \<and> lks s' = lks s
     \<and> (noff (cpus s c) > 0 \<longrightarrow> intena (cpus s' c) = intena (cpus s c))"
  using assms
proof (induction n arbitrary: s)
  case (Suc n)
  let ?s = "push_off c s"
  have "\<exists>s1. each (\<lambda>_ s. pop_off c s) [0..<n] ((push_off c ^^ n) ?s) = Done () s1
     \<and> noff (cpus s1 c) = noff (cpus ?s c) \<and> intr (cpus s1 c) = intr (cpus ?s c) \<and> lks s1 = lks ?s
     \<and> (noff (cpus ?s c) > 0 \<longrightarrow> intena (cpus s1 c) = intena (cpus ?s c))"
    using Suc.prems by (intro Suc.IH) (auto simp: push_off_simps)
  then obtain s1 where s1: "each (\<lambda>_ s. pop_off c s) [0..<n] ((push_off c ^^ n) ?s) = Done () s1"
    "noff (cpus s1 c) = noff (cpus s c) + 1" "\<not> intr (cpus s1 c)" "lks s1 = lks s"
    "intena (cpus s1 c) = (if noff (cpus s c) = 0 then intr (cpus s c) else intena (cpus s c))"
    using Suc.prems(1) by (auto simp: push_off_simps)
  have "(push_off c ^^ Suc n) s = (push_off c ^^ n) ?s" by (simp only: funpow_Suc_right o_apply)
  then have "each (\<lambda>_ s. pop_off c s) [0..<Suc n] ((push_off c ^^ Suc n) s) = pop_off c s1"
    using s1(1) by (cases "pop_off c s1") (simp_all add: each_append del: funpow.simps)
  then show ?case
    using s1 Suc.prems by (auto simp: pop_off_def Let_def)
qed simp

text \<open>
  \<open>acquire\<close> of a free lock returns with the lock held and interrupts off; \<open>acquire\<close> and
  \<open>release\<close> panic on misuse; the loop of \<open>acquire\<close> does not end while the lock is held.
\<close>

lemma acquire_free:
  assumes "\<not> lk_locked (lks s l)"
  shows "\<exists>s'. acquire (Suc fuel) c l s = Done () s' \<and> holding c l s' \<and> \<not> intr (cpus s' c)
     \<and> noff (cpus s' c) = noff (cpus s c) + 1"
  using assms
  by (auto simp: acquire_def acquire_enter_def holding_def push_off_simps acquire_try_def acquire_got_def Let_def)

lemma acquire_held_panics: "holding c l s \<Longrightarrow> acquire fuel c l s = Panic ''acquire''"
  by (simp add: acquire_def acquire_enter_def holding_def push_off_simps Let_def)

lemma release_not_held_panics: "\<not> holding c l s \<Longrightarrow> release c l s = Panic ''release''"
  by (simp add: release_def release_enter_def)

lemma acquire_spin_held: "lk_locked (lks s l) \<Longrightarrow> acquire_spin fuel l s = None"
  by (induction fuel arbitrary: s) (auto simp: acquire_try_def)

text \<open>
  C36: \<open>acquire\<close> of a free lock followed by \<open>release\<close> returns, the lock is free again, and the
  CPU's nesting depth and interrupt bit are what they were before the \<open>acquire\<close>.
\<close>

theorem acquire_release_restores:
  assumes "\<not> lk_locked (lks s l)" and "noff (cpus s c) \<ge> 0" and "noff (cpus s c) > 0 \<longrightarrow> \<not> intr (cpus s c)"
  shows "\<exists>s'. bnd (acquire (Suc fuel) c l s) (\<lambda>_ s. release c l s) = Done () s'
     \<and> \<not> lk_locked (lks s' l) \<and> lk_cpu (lks s' l) = None
     \<and> noff (cpus s' c) = noff (cpus s c) \<and> intr (cpus s' c) = intr (cpus s c)"
proof -
  let ?s = "upd_lk l (\<lambda>k. k\<lparr>lk_cpu := Some c\<rparr>) (upd_lk l (\<lambda>k. k\<lparr>lk_locked := True\<rparr>)
     (upd_lk l (\<lambda>k. k\<lparr>lk_n := lk_n k + 1\<rparr>) (push_off c s)))"
  have "acquire (Suc fuel) c l s = Done () ?s"
    using assms(1) by (simp add: acquire_def acquire_enter_def holding_def push_off_simps
        acquire_try_def acquire_got_def Let_def)
  then show ?thesis
    using assms(2,3) by (auto simp: release_def release_enter_def holding_def release_drop_def
        pop_off_def push_off_simps Let_def)
qed

section \<open>Examples\<close>

definition idle_cpu :: cpu where "idle_cpu = \<lparr>noff = 0, intena = False, intr = True\<rparr>"

definition boot_spin :: spin_st where
  "boot_spin = \<lparr>lks = (\<lambda>_. \<lparr>lk_locked = False, lk_name = [], lk_cpu = None, lk_n = 0, lk_nts = 0\<rparr>),
     lock_list = [], cpus = (\<lambda>_. idle_cpu)\<rparr>"

theorem spinlock_mutual_exclusion_witness:
  "\<exists>C. reachable C \<and> owns C 0 7 \<and> \<not> owns C 1 7 \<and> \<not> intr (cpus (snd C) 0)"
proof -
  obtain s1 where s1: "acquire_enter 0 7 boot_spin = Done () s1" "\<not> lk_locked (lks s1 7)"
    by (simp add: acquire_enter_def holding_def push_off_simps boot_spin_def Let_def)
  obtain s2 where s2: "acquire_try 7 s1 = (True, s2)" using s1(2) by (simp add: acquire_try_def)
  let ?pc = "(\<lambda>_. Run) :: nat \<Rightarrow> lpc"
  have "boot_conf (?pc, boot_spin)" by (simp add: boot_conf_def boot_spin_def idle_cpu_def)
  then have "reachable (?pc, boot_spin)" by (rule reachable.boot)
  then have "reachable (?pc(0 := AcqSpin 7), s1)" by (rule reachable.step) (rule enter [OF refl s1(1)])
  then have r: "reachable (?pc(0 := AcqSpin 7, 0 := AcqGot 7), s2)"
    by (rule reachable.step) (rule take_lock [OF _ s2], simp)
  moreover have "owns (?pc(0 := AcqSpin 7, 0 := AcqGot 7), s2) 0 7" by (simp add: owns_def)
  ultimately show ?thesis using spinlock_mutual_exclusion [OF r] by (metis zero_neq_one)
qed

theorem push_pop_nest_witness:
  "\<exists>s'. each (\<lambda>_ s. pop_off 0 s) [0..<2] ((push_off 0 ^^ 2) boot_spin) = Done () s' \<and> intr (cpus s' 0)"
  using push_pop_nest [of boot_spin 0 2] by (auto simp: boot_spin_def idle_cpu_def)

theorem acquire_release_restores_witness:
  "\<exists>s'. bnd (acquire 1 0 7 boot_spin) (\<lambda>_ s. release 0 7 s) = Done () s' \<and> intr (cpus s' 0)"
  using acquire_release_restores [of boot_spin 7 0 0] by (auto simp: boot_spin_def idle_cpu_def)

end
