(* ===== verification/Xv6_Riscv.thy ===== *)
theory Xv6_Riscv
  imports Xv6_Prelude
begin

text \<open>
  The address arithmetic of \<open>kernel/riscv.h\<close> and the address map of
  \<open>kernel/memlayout.h\<close>, as functions on 64-bit words, with the facts about rounding,
  page-table indices and page-table entries that the memory components use.
\<close>

section \<open>kernel/riscv.h\<close>

definition PGSIZE :: u64 where "PGSIZE = 4096"

definition PGROUNDUP :: "u64 \<Rightarrow> u64" where
  "PGROUNDUP sz = (sz + PGSIZE - 1) AND NOT (PGSIZE - 1)"

definition PGROUNDDOWN :: "u64 \<Rightarrow> u64" where
  "PGROUNDDOWN a = a AND NOT (PGSIZE - 1)"

definition PTE_V :: u64 where "PTE_V = push_bit 0 1"
definition PTE_R :: u64 where "PTE_R = push_bit 1 1"
definition PTE_W :: u64 where "PTE_W = push_bit 2 1"
definition PTE_X :: u64 where "PTE_X = push_bit 3 1"
definition PTE_U :: u64 where "PTE_U = push_bit 4 1"

definition PA2PTE :: "u64 \<Rightarrow> u64" where
  "PA2PTE pa = push_bit 10 (drop_bit 12 pa)"

definition PTE2PA :: "u64 \<Rightarrow> u64" where
  "PTE2PA pte = push_bit 12 (drop_bit 10 pte)"

definition PTE_FLAGS :: "u64 \<Rightarrow> u64" where
  "PTE_FLAGS pte = pte AND 0x3FF"

definition PXSHIFT :: "nat \<Rightarrow> nat" where
  "PXSHIFT level = 12 + 9 * level"

definition PX :: "nat \<Rightarrow> u64 \<Rightarrow> u64" where
  "PX level va = drop_bit (PXSHIFT level) va AND 0x1FF"

definition MAXVA :: u64 where
  "MAXVA = push_bit (9 + 9 + 9 + 12 - 1) 1"

definition MAKE_SATP :: "u64 \<Rightarrow> u64" where
  "MAKE_SATP pagetable = push_bit 60 8 OR drop_bit 12 pagetable"

section \<open>kernel/memlayout.h\<close>

definition UART0 :: u64 where "UART0 = 0x10000000"
definition VIRTION :: "u64 \<Rightarrow> u64" where "VIRTION n = 0x10000000 + (n + 1) * 0x1000"
definition CLINT :: u64 where "CLINT = 0x2000000"
definition PLIC :: u64 where "PLIC = 0x0c000000"
definition KERNBASE :: u64 where "KERNBASE = 0x80000000"
definition PHYSTOP :: u64 where "PHYSTOP = KERNBASE + 128 * 1024 * 1024"
definition TRAMPOLINE :: u64 where "TRAMPOLINE = MAXVA - PGSIZE"
definition KSTACK :: "u64 \<Rightarrow> u64" where "KSTACK p = TRAMPOLINE - (p + 1) * 2 * PGSIZE"
definition TRAPFRAME :: u64 where "TRAPFRAME = TRAMPOLINE - PGSIZE"

section \<open>Values of the constants\<close>

lemma PGSIZE_mask: "PGSIZE - 1 = mask 12"
  by (simp add: PGSIZE_def mask_eq_exp_minus_1)

lemma unat_PGSIZE [simp]: "unat PGSIZE = 4096"
  by (simp add: PGSIZE_def)

lemma MAXVA_val [layout_simps]: "MAXVA = 0x4000000000"
  by (simp add: MAXVA_def push_bit_eq_mult)

lemma unat_MAXVA: "unat MAXVA = 274877906944"
  by (simp add: MAXVA_val)

lemma PHYSTOP_val [layout_simps]: "PHYSTOP = 0x88000000"
  by (simp add: PHYSTOP_def KERNBASE_def)

lemma TRAMPOLINE_val [layout_simps]: "TRAMPOLINE = 0x3FFFFFF000"
  by (simp add: TRAMPOLINE_def PGSIZE_def layout_simps)

lemma TRAPFRAME_val [layout_simps]: "TRAPFRAME = 0x3FFFFFE000"
  by (simp add: TRAPFRAME_def PGSIZE_def layout_simps)

lemma PTE_bits [layout_simps]:
  "PTE_V = 1" "PTE_R = 2" "PTE_W = 4" "PTE_X = 8" "PTE_U = 16"
  by (simp_all add: PTE_V_def PTE_R_def PTE_W_def PTE_X_def PTE_U_def push_bit_eq_mult)

section \<open>Rounding to pages\<close>

lemma unat_PGROUNDDOWN: "unat (PGROUNDDOWN a) = unat a - unat a mod 4096"
  by (simp add: PGROUNDDOWN_def PGSIZE_mask unat_and_not_mask)

lemma PGROUNDDOWN_le: "PGROUNDDOWN a \<le> a"
  by (simp add: word_le_nat_alt unat_PGROUNDDOWN)

lemma PGROUNDDOWN_aligned: "unat (PGROUNDDOWN a) mod 4096 = 0"
  by (simp add: unat_PGROUNDDOWN)

lemma PGROUNDDOWN_offset: "unat (a - PGROUNDDOWN a) = unat a mod 4096"
  by (simp add: unat_sub [OF PGROUNDDOWN_le] unat_PGROUNDDOWN)

lemma PGROUNDDOWN_id: "unat a mod 4096 = 0 \<Longrightarrow> PGROUNDDOWN a = a"
  by (simp add: unat_PGROUNDDOWN word_unat_eq_iff)

lemma unat_PGROUNDUP:
  assumes "unat a + 4095 < 2 ^ 64"
  shows "unat (PGROUNDUP a) = (unat a + 4095) - (unat a + 4095) mod 4096"
proof -
  have "unat (a + PGSIZE - 1) = unat a + 4095"
    using assms by (simp add: PGSIZE_def unat_word_ariths)
  then show ?thesis
    by (simp add: PGROUNDUP_def PGSIZE_mask unat_and_not_mask)
qed

lemma PGROUNDUP_aligned:
  "unat a + 4095 < 2 ^ 64 \<Longrightarrow> unat (PGROUNDUP a) mod 4096 = 0"
  by (simp add: unat_PGROUNDUP)

lemma PGROUNDUP_ge: "unat a + 4095 < 2 ^ 64 \<Longrightarrow> unat a \<le> unat (PGROUNDUP a)"
proof -
  assume a: "unat a + 4095 < 2 ^ 64"
  have "(unat a + 4095) mod 4096 \<le> 4095" by (simp add: less_Suc_eq_le [symmetric])
  then show ?thesis using a by (simp add: unat_PGROUNDUP)
qed

text \<open>\<open>PGROUNDUP\<close> is the least page boundary not below its argument.\<close>

lemma PGROUNDUP_least:
  assumes "unat a + 4095 < 2 ^ 64" and "unat a \<le> b" and "b mod 4096 = 0"
  shows "unat (PGROUNDUP a) \<le> b"
proof -
  obtain k where b: "b = 4096 * k" using assms(3) by (metis mod_0_imp_dvd dvd_def)
  have "(unat a + 4095) div 4096 \<le> k" using assms(2) b by (simp add: div_le_mono less_Suc_eq_le [symmetric] div_less_iff_less_mult)
  then show ?thesis
    using assms(1) b by (simp add: unat_PGROUNDUP minus_mod_eq_div_mult)
qed

section \<open>Page-table entries\<close>

text \<open>An entry built from a page-aligned physical address gives the address back.\<close>

lemma PTE2PA_PA2PTE:
  assumes "unat pa mod 4096 = 0" and "unat flags < 1024"
  shows "PTE2PA (PA2PTE pa OR flags) = pa"
proof (rule bit_word_eqI)
  fix n
  assume n: "n < LENGTH(64)"
  have lo: "\<not> bit pa n" if "n < 12" for n
  proof -
    have "take_bit 12 pa = 0"
      using assms(1) by (simp add: word_unat_eq_iff unat_take_bit)
    then have "\<not> bit (take_bit 12 pa) n" by simp
    then show ?thesis using that by (simp add: bit_take_bit_iff)
  qed
  have fl: "\<not> bit flags k" if "10 \<le> k" for k
  proof -
    have "drop_bit 10 flags = 0"
      using assms(2) by (simp add: word_unat_eq_iff unat_drop_bit)
    then have "\<not> bit (drop_bit 10 flags) (k - 10)" by simp
    then show ?thesis using that by (simp add: bit_drop_bit_eq)
  qed
  show "bit (PTE2PA (PA2PTE pa OR flags)) n = bit pa n"
    using n lo fl by (cases "n < 12") (auto simp: PTE2PA_def PA2PTE_def bit_simps)
qed

end
