(* ===== verification/Xv6_Kalloc.thy ===== *)
theory Xv6_Kalloc
  imports Xv6_Riscv
begin

text \<open>
  \<open>kernel/kalloc.c\<close>: the page allocator. Physical memory is a function from page
  addresses to pages, a page being its 512 64-bit words (byte \<open>b\<close> of word \<open>i\<close> is byte
  \<open>8 * i + b\<close> of the page). The free list is threaded through the free pages themselves:
  \<open>struct run\<close> is the first word of a page, as in the code.
  Critical sections under \<open>kmem.lock\<close> are atomic steps of the model.
\<close>

section \<open>State and operations\<close>

type_synonym page = "9 word \<Rightarrow> u64"

text \<open>
  \<open>kmem.freelist\<close> and physical memory. \<open>kend\<close> is the linker's symbol \<open>end\<close>, the first
  address after the kernel; nothing writes it.
\<close>

record kmem_st =
  kend :: u64
  mem :: "u64 \<Rightarrow> page"
  freelist :: u64

text \<open>\<open>memset(pa, c, PGSIZE)\<close> on a whole page: every byte is \<open>c\<close>.\<close>

definition fill_word :: "u8 \<Rightarrow> u64" where
  "fill_word c = 0x0101010101010101 * ucast c"

definition memset_page :: "u64 \<Rightarrow> u8 \<Rightarrow> 'z kmem_st_scheme \<Rightarrow> 'z kmem_st_scheme" where
  "memset_page pa c s = s\<lparr>mem := (mem s)(pa := (\<lambda>_. fill_word c))\<rparr>"

definition kfree :: "u64 \<Rightarrow> 'z kmem_st_scheme \<Rightarrow> (unit, 'z kmem_st_scheme) outcome" where
  "kfree pa s =
     (if pa mod PGSIZE \<noteq> 0 \<or> pa < kend s \<or> pa \<ge> PHYSTOP then Panic ''kfree''
      else let s1 = memset_page pa 1 s;
               s2 = s1\<lparr>mem := (mem s1)(pa := (mem s1 pa)(0 := freelist s1))\<rparr>
           in Done () (s2\<lparr>freelist := pa\<rparr>))"

definition kalloc :: "'z kmem_st_scheme \<Rightarrow> (u64, 'z kmem_st_scheme) outcome" where
  "kalloc s =
     (let r = freelist s
      in if r \<noteq> 0
         then let s1 = s\<lparr>freelist := mem s r 0\<rparr> in Done r (memset_page r 5 s1)
         else Done r s)"

text \<open>
  The loop of \<open>freerange\<close>. \<open>p + PGSIZE <= pa_end\<close> compares pointers, whose sum does not
  wrap in C.
\<close>

function freerange_from ::
    "u64 \<Rightarrow> u64 \<Rightarrow> 'z kmem_st_scheme \<Rightarrow> (unit, 'z kmem_st_scheme) outcome" where
  "freerange_from p pa_end s =
     (if unat p + unat PGSIZE \<le> unat pa_end
      then bnd (kfree p s) (\<lambda>_ s. freerange_from (p + PGSIZE) pa_end s)
      else Done () s)"
  by pat_completeness auto
termination
proof (relation "measure (\<lambda>(p, pa_end, s). unat pa_end - unat p)", goal_cases)
  case (2 p pa_end s x xa)
  then have "unat (p + PGSIZE) = unat p + 4096"
    using unat_lt_64 [of pa_end] unat_add_64 [of p PGSIZE] by simp
  with 2 show ?case by simp
qed simp

declare freerange_from.simps [simp del]

definition freerange ::
    "u64 \<Rightarrow> u64 \<Rightarrow> 'z kmem_st_scheme \<Rightarrow> (unit, 'z kmem_st_scheme) outcome" where
  "freerange pa_start pa_end s = freerange_from (PGROUNDUP pa_start) pa_end s"

definition kinit :: "'z kmem_st_scheme \<Rightarrow> (unit, 'z kmem_st_scheme) outcome" where
  "kinit s = freerange (kend s) PHYSTOP s"

section \<open>The free list as a sequence of pages\<close>

fun chain :: "(u64 \<Rightarrow> page) \<Rightarrow> u64 \<Rightarrow> u64 list \<Rightarrow> bool" where
  "chain m p [] \<longleftrightarrow> p = 0"
| "chain m p (x # xs) \<longleftrightarrow> p = x \<and> x \<noteq> 0 \<and> chain m (m x 0) xs"

definition managed :: "'z kmem_st_scheme \<Rightarrow> u64 \<Rightarrow> bool" where
  "managed s pa \<longleftrightarrow> pa mod PGSIZE = 0 \<and> kend s \<le> pa \<and> pa < PHYSTOP"

text \<open>The free pages, in list order; well-formed when all of them are managed.\<close>

definition free_pages :: "'z kmem_st_scheme \<Rightarrow> u64 list \<Rightarrow> bool" where
  "free_pages s xs \<longleftrightarrow>
     0 < kend s \<and> chain (mem s) (freelist s) xs \<and> distinct xs \<and> (\<forall>x \<in> set xs. managed s x)"

lemma chain_cong:
  "(\<And>x. x \<in> set xs \<Longrightarrow> m' x = m x) \<Longrightarrow> chain m' p xs = chain m p xs"
  by (induction xs arbitrary: p) auto

lemma chain_unique: "chain m p xs \<Longrightarrow> chain m p ys \<Longrightarrow> xs = ys"
proof (induction xs arbitrary: p ys)
  case Nil
  then show ?case by (cases ys) auto
next
  case (Cons x xs)
  then show ?case by (cases ys) auto
qed

lemma free_pages_unique: "free_pages s xs \<Longrightarrow> free_pages s ys \<Longrightarrow> xs = ys"
  unfolding free_pages_def using chain_unique by blast

lemma managed_nonzero: "0 < kend s \<Longrightarrow> managed s pa \<Longrightarrow> pa \<noteq> 0"
  by (auto simp: managed_def)

section \<open>kfree and kalloc\<close>

lemma kfree_pushes:
  assumes "free_pages s xs" and "managed s pa" and "pa \<notin> set xs"
  shows "\<exists>s'. kfree pa s = Done () s' \<and> free_pages s' (pa # xs) \<and> kend s' = kend s
     \<and> (\<forall>q. q \<noteq> pa \<longrightarrow> mem s' q = mem s q)"
proof -
  have "pa \<noteq> 0" using assms managed_nonzero by (auto simp: free_pages_def)
  let ?s = "s\<lparr>mem := (mem s)(pa := (\<lambda>_. fill_word 1)(0 := freelist s)), freelist := pa\<rparr>"
  have "kfree pa s = Done () ?s"
    using assms(2) by (auto simp: kfree_def memset_page_def managed_def Let_def)
  moreover have "chain (mem ?s) (freelist s) xs"
    using assms(1,3) by (subst chain_cong [where m = "mem s"]) (auto simp: free_pages_def)
  ultimately show ?thesis
    using assms \<open>pa \<noteq> 0\<close> by (auto simp: free_pages_def managed_def)
qed

lemma kfree_panics: "\<not> managed s pa \<Longrightarrow> kfree pa s = Panic ''kfree''"
  by (auto simp: kfree_def managed_def not_less not_le)

lemma kalloc_pops:
  assumes "free_pages s (x # xs)"
  shows "\<exists>s'. kalloc s = Done x s' \<and> free_pages s' xs \<and> kend s' = kend s \<and> managed s x \<and> x \<noteq> 0
     \<and> mem s' x = (\<lambda>_. fill_word 5) \<and> (\<forall>q. q \<noteq> x \<longrightarrow> mem s' q = mem s q)"
proof -
  let ?s = "memset_page x 5 (s\<lparr>freelist := mem s x 0\<rparr>)"
  have "kalloc s = Done x ?s"
    using assms by (auto simp: kalloc_def free_pages_def Let_def)
  moreover have "chain (mem ?s) (mem s x 0) xs = chain (mem s) (mem s x 0) xs"
    using assms by (intro chain_cong) (auto simp: free_pages_def memset_page_def)
  ultimately show ?thesis
    using assms by (auto simp: free_pages_def managed_def memset_page_def)
qed

lemma kalloc_empty: "free_pages s [] \<Longrightarrow> kalloc s = Done 0 s"
  by (simp add: kalloc_def free_pages_def Let_def)

section \<open>kinit\<close>

lemma aligned_step:
  assumes "4096 dvd unat p" and "4096 dvd unat q" and "unat p < unat q"
  shows "unat p + 4096 \<le> unat q"
proof -
  obtain i j where "unat p = 4096 * i" "unat q = 4096 * j"
    using assms(1,2) by (auto simp: dvd_def)
  then show ?thesis using assms(3) by simp
qed

lemma unat_mod_PGSIZE: "pa mod PGSIZE = 0 \<longleftrightarrow> 4096 dvd unat pa"
  by (simp add: PGSIZE_def word_unat_eq_iff unat_mod_distrib dvd_eq_mod_eq_0)

lemma freerange_from_frees:
  assumes "free_pages s xs" and "4096 dvd unat p" and "kend s \<le> p" and "pa_end \<le> PHYSTOP"
    and "\<forall>x \<in> set xs. x < p"
  shows "\<exists>s' ys. freerange_from p pa_end s = Done () s' \<and> kend s' = kend s \<and> free_pages s' ys
     \<and> set ys = set xs \<union> {q. 4096 dvd unat q \<and> p \<le> q \<and> unat q + 4096 \<le> unat pa_end}"
  using assms
proof (induction p pa_end s arbitrary: xs rule: freerange_from.induct)
  case (1 p pa_end s)
  show ?case
  proof (cases "unat p + unat PGSIZE \<le> unat pa_end")
    case False
    then have "set xs = set xs \<union> {q. 4096 dvd unat q \<and> p \<le> q \<and> unat q + 4096 \<le> unat pa_end}"
      by (auto simp: word_le_nat_alt)
    with False "1.prems"(1) show ?thesis by (subst freerange_from.simps) auto
  next
    case True
    then have sum: "unat (p + PGSIZE) = unat p + 4096"
      using unat_lt_64 [of pa_end] unat_add_64 [of p PGSIZE] by simp
    have "managed s p"
      using "1.prems" True by (auto simp: managed_def unat_mod_PGSIZE word_le_nat_alt word_less_nat_alt)
    moreover have "p \<notin> set xs" using "1.prems"(5) by blast
    ultimately obtain s1 where s1: "kfree p s = Done () s1" "free_pages s1 (p # xs)" "kend s1 = kend s"
      using kfree_pushes "1.prems"(1) by blast
    have rest: "\<exists>s' ys. freerange_from (p + PGSIZE) pa_end s1 = Done () s' \<and> kend s' = kend s1
       \<and> free_pages s' ys \<and> set ys = set (p # xs) \<union>
         {q. 4096 dvd unat q \<and> p + PGSIZE \<le> q \<and> unat q + 4096 \<le> unat pa_end}"
      using "1.prems" s1 sum
      by (intro "1.IH" [OF True s1(1)])
        (auto simp: word_le_nat_alt word_less_nat_alt)
    have step: "p + PGSIZE \<le> q \<longleftrightarrow> p < q" if "4096 dvd unat q" for q
      using that "1.prems"(2) sum aligned_step [of p q]
      by (auto simp: word_le_nat_alt word_less_nat_alt)
    have "set (p # xs) \<union> {q. 4096 dvd unat q \<and> p + PGSIZE \<le> q \<and> unat q + 4096 \<le> unat pa_end}
       = set xs \<union> {q. 4096 dvd unat q \<and> p \<le> q \<and> unat q + 4096 \<le> unat pa_end}"
      using "1.prems"(2) True by (auto simp: step order_le_less [of p])
    with rest show ?thesis
      unfolding freerange_from.simps [of p pa_end s] using True s1 by simp
  qed
qed

text \<open>C11: after \<open>kinit\<close> exactly the whole pages between \<open>end\<close> and \<open>PHYSTOP\<close> are free.\<close>

theorem kinit_frees_all:
  assumes "0 < kend s" and "kend s \<le> PHYSTOP" and "freelist s = 0"
  shows "\<exists>s' xs. kinit s = Done () s' \<and> free_pages s' xs \<and> set xs = {pa. managed s pa}"
proof -
  have "unat (kend s) + 4095 < 2 ^ 64"
    using assms(2) by (simp add: word_le_nat_alt layout_simps)
  note up = PGROUNDUP_aligned [OF this, folded dvd_eq_mod_eq_0] PGROUNDUP_ge [OF this]
    PGROUNDUP_least [OF this, folded dvd_eq_mod_eq_0]
  have "free_pages s []" using assms by (simp add: free_pages_def)
  then obtain s' ys where s': "freerange_from (PGROUNDUP (kend s)) PHYSTOP s = Done () s'"
    "free_pages s' ys"
    "set ys = {q. 4096 dvd unat q \<and> PGROUNDUP (kend s) \<le> q \<and> unat q + 4096 \<le> unat PHYSTOP}"
    using freerange_from_frees [of s "[]" "PGROUNDUP (kend s)" PHYSTOP] up(1,2)
    by (auto simp: word_le_nat_alt)
  have "4096 dvd unat q \<and> PGROUNDUP (kend s) \<le> q \<and> unat q + 4096 \<le> unat PHYSTOP \<longleftrightarrow> managed s q" for q
    using up aligned_step [of q PHYSTOP]
    by (auto simp: managed_def unat_mod_PGSIZE word_le_nat_alt word_less_nat_alt PHYSTOP_val)
  with s' show ?thesis by (auto simp: kinit_def freerange_def)
qed

theorem kinit_frees_all_witness:
  "\<exists>s' xs. kinit \<lparr>kend = 0x80020000, mem = \<lambda>_ _. 0, freelist = 0\<rparr> = Done () s' \<and>
     free_pages s' xs \<and> 0x80021000 \<in> set xs"
proof -
  let ?s = "\<lparr>kend = 0x80020000, mem = \<lambda>_ _. 0, freelist = 0\<rparr> :: kmem_st"
  have "managed ?s 0x80021000" by (simp add: managed_def PGSIZE_def PHYSTOP_val)
  then show ?thesis using kinit_frees_all [of ?s] by (auto simp: PHYSTOP_val)
qed

section \<open>The contract of a page allocator\<close>

text \<open>
  What the clients of \<open>kalloc.c\<close> rely on. \<open>pool s\<close> is the set of free pages of a
  well-formed state; \<open>ok s\<close> is the set of pages that may be freed into it.
\<close>

locale page_allocator =
  fixes alloc :: "'s \<Rightarrow> (u64, 's) outcome"
    and free :: "u64 \<Rightarrow> 's \<Rightarrow> (unit, 's) outcome"
    and wf :: "'s \<Rightarrow> bool"
    and pool :: "'s \<Rightarrow> u64 set"
    and ok :: "'s \<Rightarrow> u64 set"
  assumes pool_ok: "wf s \<Longrightarrow> pool s \<subseteq> ok s"
    and ok_nonzero: "wf s \<Longrightarrow> 0 \<notin> ok s"
    and alloc_fails: "wf s \<Longrightarrow> pool s = {} \<Longrightarrow> alloc s = Done 0 s"
    and alloc_gives: "wf s \<Longrightarrow> pool s \<noteq> {} \<Longrightarrow>
          \<exists>p s'. alloc s = Done p s' \<and> p \<in> pool s \<and> wf s' \<and> pool s' = pool s - {p} \<and> ok s' = ok s"
    and free_takes: "wf s \<Longrightarrow> p \<in> ok s \<Longrightarrow> p \<notin> pool s \<Longrightarrow>
          \<exists>s'. free p s = Done () s' \<and> wf s' \<and> pool s' = insert p (pool s) \<and> ok s' = ok s"
begin

text \<open>Taking \<open>n\<close> pages, and giving a list of pages back.\<close>

fun take_pages :: "nat \<Rightarrow> 's \<Rightarrow> (u64 list, 's) outcome" where
  "take_pages 0 s = Done [] s"
| "take_pages (Suc n) s = bnd (alloc s) (\<lambda>p s. bnd (take_pages n s) (\<lambda>ps s. Done (p # ps) s))"

fun give_pages :: "u64 list \<Rightarrow> 's \<Rightarrow> (unit, 's) outcome" where
  "give_pages [] s = Done () s"
| "give_pages (p # ps) s = bnd (free p s) (\<lambda>_ s. give_pages ps s)"

text \<open>No page is handed out twice, and what is handed out leaves the pool.\<close>

lemma take_pages_fresh:
  assumes "wf s" and "finite (pool s)" and "n \<le> card (pool s)"
  shows "\<exists>ps s'. take_pages n s = Done ps s' \<and> length ps = n \<and> distinct ps \<and> set ps \<subseteq> pool s
     \<and> 0 \<notin> set ps \<and> wf s' \<and> pool s' = pool s - set ps \<and> ok s' = ok s"
  using assms
proof (induction n arbitrary: s)
  case 0
  then show ?case by simp
next
  case (Suc n)
  then have "pool s \<noteq> {}" by auto
  then obtain p s1 where p: "alloc s = Done p s1" "p \<in> pool s" "wf s1" "pool s1 = pool s - {p}" "ok s1 = ok s"
    using alloc_gives Suc.prems(1) by blast
  have "finite (pool s1)" and "n \<le> card (pool s1)" using Suc.prems p by auto
  with Suc.IH [OF p(3)] obtain ps s' where ps: "take_pages n s1 = Done ps s'" "length ps = n"
    "distinct ps" "set ps \<subseteq> pool s1" "0 \<notin> set ps" "wf s'" "pool s' = pool s1 - set ps" "ok s' = ok s1"
    by blast
  moreover have "p \<noteq> 0" using p(2) pool_ok ok_nonzero Suc.prems(1) by blast
  ultimately show ?case using p by auto
qed

text \<open>Giving back pages that are out restores them to the pool.\<close>

lemma give_pages_restores:
  assumes "wf s" and "distinct ps" and "set ps \<subseteq> ok s" and "set ps \<inter> pool s = {}"
  shows "\<exists>s'. give_pages ps s = Done () s' \<and> wf s' \<and> pool s' = pool s \<union> set ps \<and> ok s' = ok s"
  using assms
proof (induction ps arbitrary: s)
  case Nil
  then show ?case by simp
next
  case (Cons p ps)
  then obtain s1 where s1: "free p s = Done () s1" "wf s1" "pool s1 = insert p (pool s)" "ok s1 = ok s"
    using free_takes [of s p] by auto
  with Cons.prems have "set ps \<subseteq> ok s1" and "set ps \<inter> pool s1 = {}" by auto
  with Cons.IH [OF s1(2)] Cons.prems(2) s1 show ?case by auto
qed

end

text \<open>The pool of a kernel state, as a set.\<close>

definition free_set :: "'z kmem_st_scheme \<Rightarrow> u64 set" where
  "free_set s = {p. \<exists>xs. free_pages s xs \<and> p \<in> set xs}"

definition kmem_wf :: "'z kmem_st_scheme \<Rightarrow> bool" where
  "kmem_wf s \<longleftrightarrow> (\<exists>xs. free_pages s xs)"

lemma free_set_eq: "free_pages s xs \<Longrightarrow> free_set s = set xs"
  unfolding free_set_def using free_pages_unique by blast

lemma managed_cong: "kend s' = kend s \<Longrightarrow> managed s' = managed s"
  by (simp add: managed_def fun_eq_iff)

interpretation kmem: page_allocator kalloc kfree kmem_wf free_set "\<lambda>s. {p. managed s p}"
proof (unfold_locales, goal_cases)
  case (1 s)
  then show ?case by (auto simp: free_set_def free_pages_def)
next
  case (2 s)
  then show ?case using managed_nonzero by (auto simp: kmem_wf_def free_pages_def)
next
  case (3 s)
  then show ?case using kalloc_empty by (auto simp: kmem_wf_def free_set_eq)
next
  case (4 s)
  then obtain ys y where "free_pages s ys" "y \<in> set ys" by (auto simp: free_set_def)
  then obtain x xs where xs: "free_pages s (x # xs)" by (cases ys) auto
  from kalloc_pops [OF xs] obtain s' where "kalloc s = Done x s'" "free_pages s' xs" "kend s' = kend s"
    by blast
  moreover have "distinct (x # xs)" using xs by (simp add: free_pages_def)
  ultimately show ?case
    using xs managed_cong [of s' s] by (auto simp: free_set_eq kmem_wf_def)
next
  case (5 s p)
  then obtain xs where xs: "free_pages s xs" "p \<notin> set xs" by (auto simp: kmem_wf_def free_set_eq)
  with kfree_pushes [OF xs(1) _ xs(2)] 5(2) obtain s' where
    "kfree p s = Done () s'" "free_pages s' (p # xs)" "kend s' = kend s" by blast
  with xs managed_cong [of s' s] show ?case by (auto simp: free_set_eq kmem_wf_def)
qed

lemma kalloc_cases:
  assumes "kmem_wf s"
  obtains (empty) "kalloc s = Done 0 s" "free_set s = {}"
  | (page) p s' where "kalloc s = Done p s'" "p \<noteq> 0" "p \<in> free_set s" "managed s p" "kmem_wf s'"
      "free_set s' = free_set s - {p}" "kend s' = kend s" "mem s' p = (\<lambda>_. fill_word 5)"
      "\<And>q. q \<noteq> p \<Longrightarrow> mem s' q = mem s q"
proof -
  obtain ys where ys: "free_pages s ys" using assms by (auto simp: kmem_wf_def)
  show ?thesis
  proof (cases ys)
    case Nil
    with ys show ?thesis using empty by (simp add: free_set_eq [OF ys] kalloc_empty)
  next
    case (Cons x xs)
    have "distinct (x # xs)" using ys Cons by (simp add: free_pages_def)
    from kalloc_pops [of s x xs] ys Cons obtain s' where "kalloc s = Done x s'" "free_pages s' xs"
      "kend s' = kend s" "managed s x" "x \<noteq> 0" "mem s' x = (\<lambda>_. fill_word 5)"
      "\<forall>q. q \<noteq> x \<longrightarrow> mem s' q = mem s q" by blast
    with \<open>distinct (x # xs)\<close> Cons show ?thesis
      by (intro page [of x s']) (auto simp: free_set_eq [OF ys] free_set_eq kmem_wf_def)
  qed
qed

lemma kfree_inserts:
  assumes "kmem_wf s" and "managed s p" and "p \<notin> free_set s"
  obtains s' where "kfree p s = Done () s'" "kmem_wf s'" "free_set s' = insert p (free_set s)"
    "kend s' = kend s" "\<And>q. q \<noteq> p \<Longrightarrow> mem s' q = mem s q"
proof -
  obtain ys where ys: "free_pages s ys" using assms(1) by (auto simp: kmem_wf_def)
  with assms(3) have "p \<notin> set ys" by (simp add: free_set_eq)
  from kfree_pushes [OF ys assms(2) this] obtain s' where s': "kfree p s = Done () s'"
    "free_pages s' (p # ys)" "kend s' = kend s" "\<forall>q. q \<noteq> p \<longrightarrow> mem s' q = mem s q" by blast
  with ys show ?thesis by (intro that [of s']) (auto simp: free_set_eq kmem_wf_def)
qed

section \<open>The allocator refines a set of free pages\<close>

text \<open>
  C12: \<open>kalloc\<close> takes one page out of the pool: it returns 0 and changes nothing when no page
  is free; otherwise it returns a free, managed page, which leaves the pool, is filled with
  junk, and no other page of memory changes.
\<close>

theorem kalloc_correct:
  assumes "kmem_wf s"
  shows "if free_set s = {} then kalloc s = Done 0 s
     else \<exists>p s'. kalloc s = Done p s' \<and> p \<in> free_set s \<and> managed s p \<and> p \<noteq> 0
        \<and> kmem_wf s' \<and> free_set s' = free_set s - {p}
        \<and> mem s' p = (\<lambda>_. fill_word 5) \<and> (\<forall>q. q \<noteq> p \<longrightarrow> mem s' q = mem s q)"
  by (rule kalloc_cases [OF assms]) auto

theorem kalloc_correct_witness:
  "let s = \<lparr>kend = 0x1000, mem = \<lambda>_ _. 0, freelist = 0x2000\<rparr> :: kmem_st
   in \<exists>s'. kalloc s = Done 0x2000 s' \<and> free_set s' = {}"
proof -
  let ?s = "\<lparr>kend = 0x1000, mem = \<lambda>_ _. 0, freelist = 0x2000\<rparr> :: kmem_st"
  have "free_pages ?s [0x2000]"
    by (simp add: free_pages_def managed_def PGSIZE_def PHYSTOP_val)
  then have "kmem_wf ?s" "free_set ?s = {0x2000}" by (auto simp: kmem_wf_def free_set_eq)
  then show ?thesis using kalloc_correct [of ?s] by (auto simp: Let_def)
qed

text \<open>
  C13: \<open>kfree\<close> panics on an address that is not a page of the managed range. A page of the
  range that is not free joins the pool, and only its own contents change.
\<close>

theorem kfree_correct:
  assumes "kmem_wf s"
  shows "if \<not> managed s p then kfree p s = Panic ''kfree''
     else p \<notin> free_set s \<longrightarrow>
       (\<exists>s'. kfree p s = Done () s' \<and> kmem_wf s' \<and> free_set s' = insert p (free_set s)
          \<and> (\<forall>q. q \<noteq> p \<longrightarrow> mem s' q = mem s q))"
proof (cases "managed s p \<and> p \<notin> free_set s")
  case True
  then show ?thesis using kfree_inserts [OF assms, of p] by metis
qed (auto simp: kfree_panics)

theorem kfree_correct_witness:
  "let s = \<lparr>kend = 0x1000, mem = \<lambda>_ _. 0, freelist = 0\<rparr> :: kmem_st
   in kfree 0x800 s = Panic ''kfree'' \<and> (\<exists>s'. kfree 0x2000 s = Done () s' \<and> free_set s' = {0x2000})"
proof -
  let ?s = "\<lparr>kend = 0x1000, mem = \<lambda>_ _. 0, freelist = 0\<rparr> :: kmem_st"
  have "free_pages ?s []" by (simp add: free_pages_def)
  then have wf: "kmem_wf ?s" "free_set ?s = {}" by (auto simp: kmem_wf_def free_set_eq)
  have "\<not> managed ?s 0x800" "managed ?s 0x2000"
    by (simp_all add: managed_def PGSIZE_def PHYSTOP_val)
  then show ?thesis
    using kfree_correct [OF wf(1), of "0x800"] kfree_correct [OF wf(1), of "0x2000"] wf(2)
    by (auto simp: Let_def)
qed

end
