(* ===== verification/Xv6_Vm.thy ===== *)
theory Xv6_Vm
  imports Xv6_Kalloc
begin

text \<open>
  \<open>kernel/vm.c\<close>: Sv39 page tables. A page-table page is a physical page of 512 entries;
  a pointer to an entry (\<open>pte_t *\<close>) is a page address with an index. The first part
  transcribes the file; the second part reads a page table as a translation from virtual
  pages to entries and proves what the operations do to it.
\<close>

section \<open>Operations of vm.c\<close>

type_synonym pte_ptr = "u64 \<times> 9 word"

text \<open>The globals of \<open>vm.c\<close>, the linker symbols it names, and the \<open>satp\<close> register.\<close>

record vm_st = kmem_st +
  kernel_pagetable :: u64
  etext :: u64
  trampoline :: u64
  satp :: u64

abbreviation load_pte :: "'z kmem_st_scheme \<Rightarrow> pte_ptr \<Rightarrow> u64" where
  "load_pte s p \<equiv> mem s (fst p) (snd p)"

definition store_pte :: "pte_ptr \<Rightarrow> u64 \<Rightarrow> 'z kmem_st_scheme \<Rightarrow> 'z kmem_st_scheme" where
  "store_pte p v s = s\<lparr>mem := (mem s)(fst p := (mem s (fst p))(snd p := v))\<rparr>"

definition pte_at :: "u64 \<Rightarrow> nat \<Rightarrow> u64 \<Rightarrow> pte_ptr" where
  "pte_at pagetable level va = (pagetable, ucast (PX level va))"

text \<open>The loop of \<open>walk\<close>, from \<open>level\<close> down to the pointer into the level-0 page.\<close>

fun walk_from :: "nat \<Rightarrow> u64 \<Rightarrow> u64 \<Rightarrow> bool \<Rightarrow> 'z kmem_st_scheme
    \<Rightarrow> (pte_ptr option, 'z kmem_st_scheme) outcome" where
  "walk_from 0 pagetable va alloc s = Done (Some (pte_at pagetable 0 va)) s"
| "walk_from (Suc level) pagetable va alloc s =
     (let pte = pte_at pagetable (Suc level) va
      in if load_pte s pte AND PTE_V \<noteq> 0
         then walk_from level (PTE2PA (load_pte s pte)) va alloc s
         else if \<not> alloc then Done None s
         else bnd (kalloc s) (\<lambda>pg s.
           if pg = 0 then Done None s
           else let s = memset_page pg 0 s;
                    s = store_pte pte (PA2PTE pg OR PTE_V) s
                in walk_from level pg va alloc s))"

definition walk :: "u64 \<Rightarrow> u64 \<Rightarrow> bool \<Rightarrow> 'z kmem_st_scheme
    \<Rightarrow> (pte_ptr option, 'z kmem_st_scheme) outcome" where
  "walk pagetable va alloc s =
     (if va \<ge> MAXVA then Panic ''walk'' else walk_from 2 pagetable va alloc s)"

definition walkaddr :: "u64 \<Rightarrow> u64 \<Rightarrow> 'z kmem_st_scheme \<Rightarrow> (u64, 'z kmem_st_scheme) outcome" where
  "walkaddr pagetable va s =
     (if va \<ge> MAXVA then Done 0 s
      else bnd (walk pagetable va False s) (\<lambda>pte s.
        case pte of None \<Rightarrow> Done 0 s
        | Some p \<Rightarrow>
            if load_pte s p AND PTE_V = 0 then Done 0 s
            else if load_pte s p AND PTE_U = 0 then Done 0 s
            else Done (PTE2PA (load_pte s p)) s))"

text \<open>A successful \<open>walk\<close> was below \<open>MAXVA\<close>, where adding a page does not wrap.\<close>

lemma walk_DoneD: "walk pt va alloc s = Done r s' \<Longrightarrow> va < MAXVA"
  by (auto simp: walk_def not_le split: if_splits)

lemma next_page_measure:
  assumes "va < MAXVA"
  shows "unat MAXVA + 4096 - unat (va + PGSIZE) < unat MAXVA + 4096 - unat va"
proof -
  have "unat (va + PGSIZE) = unat va + 4096"
    using assms by (subst unat_add_64) (auto simp: word_less_nat_alt layout_simps)
  then show ?thesis using assms by (simp add: word_less_nat_alt)
qed

function mappages_from :: "u64 \<Rightarrow> u64 \<Rightarrow> u64 \<Rightarrow> u64 \<Rightarrow> u64 \<Rightarrow> 'z kmem_st_scheme
    \<Rightarrow> (int, 'z kmem_st_scheme) outcome" where
  "mappages_from pagetable a last_a pa perm s =
     bnd (walk pagetable a True s) (\<lambda>pte s.
       case pte of None \<Rightarrow> Done (-1) s
       | Some p \<Rightarrow>
           if load_pte s p AND PTE_V \<noteq> 0 then Panic ''remap''
           else let s = store_pte p (PA2PTE pa OR perm OR PTE_V) s
                in if a = last_a then Done 0 s
                   else mappages_from pagetable (a + PGSIZE) last_a (pa + PGSIZE) perm s)"
  by pat_completeness auto
termination
  by (relation "measure (\<lambda>(pt, a, last_a, pa, perm, s). unat MAXVA + 4096 - unat a)")
    (auto dest!: walk_DoneD next_page_measure)

declare mappages_from.simps [simp del]

definition mappages :: "u64 \<Rightarrow> u64 \<Rightarrow> u64 \<Rightarrow> u64 \<Rightarrow> u64 \<Rightarrow> 'z kmem_st_scheme
    \<Rightarrow> (int, 'z kmem_st_scheme) outcome" where
  "mappages pagetable va sz pa perm s =
     mappages_from pagetable (PGROUNDDOWN va) (PGROUNDDOWN (va + sz - 1)) pa perm s"

definition kvmmap :: "u64 \<Rightarrow> u64 \<Rightarrow> u64 \<Rightarrow> u64 \<Rightarrow> 'z vm_st_scheme \<Rightarrow> (unit, 'z vm_st_scheme) outcome" where
  "kvmmap va pa sz perm s =
     bnd (mappages (kernel_pagetable s) va sz pa perm s) (\<lambda>r s.
       if r \<noteq> 0 then Panic ''kvmmap'' else Done () s)"

definition kvmpa :: "u64 \<Rightarrow> 'z vm_st_scheme \<Rightarrow> (u64, 'z vm_st_scheme) outcome" where
  "kvmpa va s =
     (let off = va mod PGSIZE
      in bnd (walk (kernel_pagetable s) va False s) (\<lambda>pte s.
           case pte of None \<Rightarrow> Panic ''kvmpa''
           | Some p \<Rightarrow>
               if load_pte s p AND PTE_V = 0 then Panic ''kvmpa''
               else Done (PTE2PA (load_pte s p) + off) s))"

definition kvminit :: "'z vm_st_scheme \<Rightarrow> (unit, 'z vm_st_scheme) outcome" where
  "kvminit s =
     bnd (kalloc s) (\<lambda>pg s.
     if pg = 0 then Undef ''memset of a null page''
     else let s = memset_page pg 0 (s\<lparr>kernel_pagetable := pg\<rparr>) in
     bnd (kvmmap UART0 UART0 PGSIZE (PTE_R OR PTE_W) s) (\<lambda>_ s.
     bnd (kvmmap (VIRTION 0) (VIRTION 0) PGSIZE (PTE_R OR PTE_W) s) (\<lambda>_ s.
     bnd (kvmmap (VIRTION 1) (VIRTION 1) PGSIZE (PTE_R OR PTE_W) s) (\<lambda>_ s.
     bnd (kvmmap CLINT CLINT 0x10000 (PTE_R OR PTE_W) s) (\<lambda>_ s.
     bnd (kvmmap PLIC PLIC 0x400000 (PTE_R OR PTE_W) s) (\<lambda>_ s.
     bnd (kvmmap KERNBASE KERNBASE (etext s - KERNBASE) (PTE_R OR PTE_X) s) (\<lambda>_ s.
     bnd (kvmmap (etext s) (etext s) (PHYSTOP - etext s) (PTE_R OR PTE_W) s) (\<lambda>_ s.
     kvmmap TRAMPOLINE (trampoline s) PGSIZE (PTE_R OR PTE_X) s))))))))"

definition kvminithart :: "'z vm_st_scheme \<Rightarrow> (unit, 'z vm_st_scheme) outcome" where
  "kvminithart s = Done () (s\<lparr>satp := MAKE_SATP (kernel_pagetable s)\<rparr>)"

function uvmunmap_from :: "u64 \<Rightarrow> u64 \<Rightarrow> u64 \<Rightarrow> bool \<Rightarrow> 'z kmem_st_scheme
    \<Rightarrow> (unit, 'z kmem_st_scheme) outcome" where
  "uvmunmap_from pagetable a last_a do_free s =
     bnd (walk pagetable a False s) (\<lambda>pte s.
       case pte of None \<Rightarrow> Panic ''uvmunmap: walk''
       | Some p \<Rightarrow>
           if load_pte s p AND PTE_V = 0 then Panic ''uvmunmap: not mapped''
           else if PTE_FLAGS (load_pte s p) = PTE_V then Panic ''uvmunmap: not a leaf''
           else bnd (if do_free then kfree (PTE2PA (load_pte s p)) s else Done () s) (\<lambda>_ s.
             let s = store_pte p 0 s
             in if a = last_a then Done () s
                else uvmunmap_from pagetable (a + PGSIZE) last_a do_free s))"
  by pat_completeness auto
termination
  by (relation "measure (\<lambda>(pt, a, last_a, f, s). unat MAXVA + 4096 - unat a)")
    (auto dest!: walk_DoneD next_page_measure)

declare uvmunmap_from.simps [simp del]

definition uvmunmap :: "u64 \<Rightarrow> u64 \<Rightarrow> u64 \<Rightarrow> bool \<Rightarrow> 'z kmem_st_scheme
    \<Rightarrow> (unit, 'z kmem_st_scheme) outcome" where
  "uvmunmap pagetable va sz do_free s =
     uvmunmap_from pagetable (PGROUNDDOWN va) (PGROUNDDOWN (va + sz - 1)) do_free s"

definition uvmcreate :: "'z kmem_st_scheme \<Rightarrow> (u64, 'z kmem_st_scheme) outcome" where
  "uvmcreate s =
     bnd (kalloc s) (\<lambda>pagetable s.
       if pagetable = 0 then Panic ''uvmcreate: out of memory''
       else Done pagetable (memset_page pagetable 0 s))"

text \<open>
  Bytes of a physical page. Byte \<open>j\<close> is in word \<open>j div 8\<close>, little-endian; \<open>memmove\<close> between
  a kernel buffer and a page is a list of bytes read from or written to consecutive positions.
\<close>

definition page_byte :: "page \<Rightarrow> nat \<Rightarrow> u8" where
  "page_byte pg j = ucast (drop_bit (8 * (j mod 8)) (pg (of_nat (j div 8))))"

definition set_page_byte :: "page \<Rightarrow> nat \<Rightarrow> u8 \<Rightarrow> page" where
  "set_page_byte pg j b =
     (let i = of_nat (j div 8); k = 8 * (j mod 8)
      in pg(i := (pg i AND NOT (push_bit k 0xFF)) OR push_bit k (ucast b)))"

fun write_bytes :: "page \<Rightarrow> nat \<Rightarrow> u8 list \<Rightarrow> page" where
  "write_bytes pg j [] = pg"
| "write_bytes pg j (b # bs) = write_bytes (set_page_byte pg j b) (Suc j) bs"

definition read_bytes :: "page \<Rightarrow> nat \<Rightarrow> nat \<Rightarrow> u8 list" where
  "read_bytes pg j n = map (page_byte pg) [j..<j + n]"

definition memmove_to_page :: "u64 \<Rightarrow> nat \<Rightarrow> u8 list \<Rightarrow> 'z kmem_st_scheme \<Rightarrow> 'z kmem_st_scheme" where
  "memmove_to_page pa off bs s = s\<lparr>mem := (mem s)(pa := write_bytes (mem s pa) off bs)\<rparr>"

definition uvminit :: "u64 \<Rightarrow> u8 list \<Rightarrow> 'z kmem_st_scheme \<Rightarrow> (unit, 'z kmem_st_scheme) outcome" where
  "uvminit pagetable src s =
     (if length src \<ge> unat PGSIZE then Panic ''inituvm: more than a page''
      else bnd (kalloc s) (\<lambda>pg s.
        if pg = 0 then Undef ''memset of a null page''
        else bnd (mappages pagetable 0 PGSIZE pg (PTE_W OR PTE_R OR PTE_X OR PTE_U)
               (memset_page pg 0 s)) (\<lambda>_ s.
          Done () (memmove_to_page pg 0 src s))))"

definition uvmdealloc :: "u64 \<Rightarrow> u64 \<Rightarrow> u64 \<Rightarrow> 'z kmem_st_scheme \<Rightarrow> (u64, 'z kmem_st_scheme) outcome" where
  "uvmdealloc pagetable oldsz newsz s =
     (if newsz \<ge> oldsz then Done oldsz s
      else let newup = PGROUNDUP newsz
           in bnd (if newup < PGROUNDUP oldsz
                   then uvmunmap pagetable newup (oldsz - newup) True s
                   else Done () s) (\<lambda>_ s. Done newsz s))"

text \<open>\<open>mappages\<close> returned, so its first page was below \<open>MAXVA\<close>, which is page aligned.\<close>

lemma PGROUNDDOWN_below_MAXVA: "PGROUNDDOWN a < MAXVA \<Longrightarrow> a < MAXVA"
proof (rule ccontr)
  assume a: "PGROUNDDOWN a < MAXVA" "\<not> a < MAXVA"
  then have "4096 * (unat a div 4096) < 4096 * 67108864" "67108864 * 4096 \<le> unat a"
    by (simp_all add: word_less_nat_alt unat_PGROUNDDOWN MAXVA_val minus_mod_eq_mult_div)
  then show False by (simp add: div_less_iff_less_mult)
qed

lemma mappages_DoneD: "mappages pt va sz pa perm s = Done r s' \<Longrightarrow> va < MAXVA"
  unfolding mappages_def by (subst (asm) mappages_from.simps) (auto dest!: walk_DoneD PGROUNDDOWN_below_MAXVA)

text \<open>The loop of \<open>uvmalloc\<close>; \<open>oldsz\<close> has been rounded up.\<close>

function uvmalloc_from :: "u64 \<Rightarrow> u64 \<Rightarrow> u64 \<Rightarrow> u64 \<Rightarrow> 'z kmem_st_scheme \<Rightarrow> (u64, 'z kmem_st_scheme) outcome" where
  "uvmalloc_from pagetable oldsz newsz a s =
     (if a < newsz
      then bnd (kalloc s) (\<lambda>pg s.
        if pg = 0 then bnd (uvmdealloc pagetable a oldsz s) (\<lambda>_ s. Done 0 s)
        else bnd (mappages pagetable a PGSIZE pg (PTE_W OR PTE_X OR PTE_R OR PTE_U)
               (memset_page pg 0 s)) (\<lambda>r s.
          if r \<noteq> 0
          then bnd (kfree pg s) (\<lambda>_ s. bnd (uvmdealloc pagetable a oldsz s) (\<lambda>_ s. Done 0 s))
          else uvmalloc_from pagetable oldsz newsz (a + PGSIZE) s))
      else Done newsz s)"
  by pat_completeness auto
termination
  by (relation "measure (\<lambda>(pt, oldsz, newsz, a, s). unat MAXVA + 4096 - unat a)")
    (auto dest!: mappages_DoneD next_page_measure)

declare uvmalloc_from.simps [simp del]

definition uvmalloc :: "u64 \<Rightarrow> u64 \<Rightarrow> u64 \<Rightarrow> 'z kmem_st_scheme \<Rightarrow> (u64, 'z kmem_st_scheme) outcome" where
  "uvmalloc pagetable oldsz newsz s =
     (if newsz < oldsz then Done oldsz s
      else uvmalloc_from pagetable (PGROUNDUP oldsz) newsz (PGROUNDUP oldsz) s)"

text \<open>
  The recursion of \<open>freewalk\<close> follows whatever the entries say; its depth is bounded by the
  kernel stack. \<open>freewalk\<close> gives it the three levels of an Sv39 table, the deepest that
  \<open>walk\<close> builds.
\<close>

fun freewalk_fuel :: "nat \<Rightarrow> u64 \<Rightarrow> 'z kmem_st_scheme \<Rightarrow> (unit, 'z kmem_st_scheme) outcome" where
  "freewalk_fuel 0 pagetable s = Undef ''kernel stack overflow''"
| "freewalk_fuel (Suc d) pagetable s =
     bnd (each (\<lambda>i s.
            let pte = mem s pagetable i
            in if pte AND PTE_V \<noteq> 0 \<and> pte AND (PTE_R OR PTE_W OR PTE_X) = 0
               then bnd (freewalk_fuel d (PTE2PA pte) s) (\<lambda>_ s. Done () (store_pte (pagetable, i) 0 s))
               else if pte AND PTE_V \<noteq> 0 then Panic ''freewalk: leaf''
               else Done () s) (map of_nat [0..<512]) s)
       (\<lambda>_ s. kfree pagetable s)"

definition freewalk :: "u64 \<Rightarrow> 'z kmem_st_scheme \<Rightarrow> (unit, 'z kmem_st_scheme) outcome" where
  "freewalk pagetable s = freewalk_fuel 3 pagetable s"

definition uvmfree :: "u64 \<Rightarrow> u64 \<Rightarrow> 'z kmem_st_scheme \<Rightarrow> (unit, 'z kmem_st_scheme) outcome" where
  "uvmfree pagetable sz s =
     bnd (uvmunmap pagetable 0 sz True s) (\<lambda>_ s. freewalk pagetable s)"

text \<open>The loop of \<open>uvmcopy\<close> and its \<open>err\<close> label.\<close>

definition uvmcopy_err :: "u64 \<Rightarrow> u64 \<Rightarrow> 'z kmem_st_scheme \<Rightarrow> (int, 'z kmem_st_scheme) outcome" where
  "uvmcopy_err new i s = bnd (uvmunmap new 0 i True s) (\<lambda>_ s. Done (-1) s)"

function uvmcopy_from :: "u64 \<Rightarrow> u64 \<Rightarrow> u64 \<Rightarrow> u64 \<Rightarrow> 'z kmem_st_scheme \<Rightarrow> (int, 'z kmem_st_scheme) outcome" where
  "uvmcopy_from old new sz i s =
     (if i < sz
      then bnd (walk old i False s) (\<lambda>pte s.
        case pte of None \<Rightarrow> Panic ''uvmcopy: pte should exist''
        | Some p \<Rightarrow>
            if load_pte s p AND PTE_V = 0 then Panic ''uvmcopy: page not present''
            else let pa = PTE2PA (load_pte s p); flags = PTE_FLAGS (load_pte s p)
                 in bnd (kalloc s) (\<lambda>pg s.
                      if pg = 0 then uvmcopy_err new i s
                      else bnd (mappages new i PGSIZE pg flags (s\<lparr>mem := (mem s)(pg := mem s pa)\<rparr>)) (\<lambda>r s.
                        if r \<noteq> 0 then bnd (kfree pg s) (\<lambda>_ s. uvmcopy_err new i s)
                        else uvmcopy_from old new sz (i + PGSIZE) s)))
      else Done 0 s)"
  by pat_completeness auto
termination
  by (relation "measure (\<lambda>(old, new, sz, i, s). unat MAXVA + 4096 - unat i)")
    (auto dest!: walk_DoneD next_page_measure)

declare uvmcopy_from.simps [simp del]

definition uvmcopy :: "u64 \<Rightarrow> u64 \<Rightarrow> u64 \<Rightarrow> 'z kmem_st_scheme \<Rightarrow> (int, 'z kmem_st_scheme) outcome" where
  "uvmcopy old new sz s = uvmcopy_from old new sz 0 s"

definition uvmclear :: "u64 \<Rightarrow> u64 \<Rightarrow> 'z kmem_st_scheme \<Rightarrow> (unit, 'z kmem_st_scheme) outcome" where
  "uvmclear pagetable va s =
     bnd (walk pagetable va False s) (\<lambda>pte s.
       case pte of None \<Rightarrow> Panic ''uvmclear''
       | Some p \<Rightarrow> Done () (store_pte p (load_pte s p AND NOT PTE_U) s))"

text \<open>
  Copying between kernel buffers and user memory. The kernel buffer of \<open>copyout\<close> is the list
  of bytes to copy; \<open>copyin\<close> and \<open>copyinstr\<close> return the bytes they have stored at \<open>dst\<close>
  beside their result.
\<close>

lemma page_chunk_pos: "0 < min (unat (PGSIZE - (va - PGROUNDDOWN va))) n \<longleftrightarrow> 0 < n"
proof -
  have "unat (va - PGROUNDDOWN va) < 4096"
    using PGROUNDDOWN_offset [of va] by simp
  then have "va - PGROUNDDOWN va \<noteq> PGSIZE" by (metis less_irrefl unat_PGSIZE)
  then have "0 < unat (PGSIZE - (va - PGROUNDDOWN va))"
    by (metis eq_iff_diff_eq_0 unat_gt_0)
  then show ?thesis by simp
qed

function copyout :: "u64 \<Rightarrow> u64 \<Rightarrow> u8 list \<Rightarrow> 'z kmem_st_scheme \<Rightarrow> (int, 'z kmem_st_scheme) outcome" where
  "copyout pagetable dstva src s =
     (if length src > 0
      then let va0 = PGROUNDDOWN dstva
           in bnd (walkaddr pagetable va0 s) (\<lambda>pa0 s.
                if pa0 = 0 then Done (-1) s
                else let n = min (unat (PGSIZE - (dstva - va0))) (length src);
                         s = memmove_to_page pa0 (unat (dstva - va0)) (take n src) s
                     in copyout pagetable (va0 + PGSIZE) (drop n src) s)
      else Done 0 s)"
  by pat_completeness auto
termination
  by (relation "measure (\<lambda>(pt, va, src, s). length src)")
    (use page_chunk_pos in \<open>auto simp del: min_less_iff_conj\<close>)

function copyin :: "u64 \<Rightarrow> u64 \<Rightarrow> nat \<Rightarrow> 'z kmem_st_scheme \<Rightarrow> (int \<times> u8 list, 'z kmem_st_scheme) outcome" where
  "copyin pagetable srcva len s =
     (if len > 0
      then let va0 = PGROUNDDOWN srcva
           in bnd (walkaddr pagetable va0 s) (\<lambda>pa0 s.
                if pa0 = 0 then Done (-1, []) s
                else let n = min (unat (PGSIZE - (srcva - va0))) len;
                         bs = read_bytes (mem s pa0) (unat (srcva - va0)) n
                     in bnd (copyin pagetable (va0 + PGSIZE) (len - n) s) (\<lambda>(r, rest) s.
                          Done (r, bs @ rest) s))
      else Done (0, []) s)"
  by pat_completeness auto
termination
  by (relation "measure (\<lambda>(pt, va, len, s). len)")
    (use page_chunk_pos in \<open>auto simp del: min_less_iff_conj\<close>)

text \<open>The inner loop of \<open>copyinstr\<close>: up to \<open>n\<close> bytes of a page, and whether a NUL ended it.\<close>

fun copyinstr_page :: "page \<Rightarrow> nat \<Rightarrow> nat \<Rightarrow> u8 list \<times> bool" where
  "copyinstr_page pg p 0 = ([], False)"
| "copyinstr_page pg p (Suc n) =
     (if page_byte pg p = 0 then ([0], True)
      else let (bs, got_null) = copyinstr_page pg (Suc p) n in (page_byte pg p # bs, got_null))"

function copyinstr :: "u64 \<Rightarrow> u64 \<Rightarrow> nat \<Rightarrow> 'z kmem_st_scheme \<Rightarrow> (int \<times> u8 list, 'z kmem_st_scheme) outcome" where
  "copyinstr pagetable srcva maxlen s =
     (if maxlen > 0
      then let va0 = PGROUNDDOWN srcva
           in bnd (walkaddr pagetable va0 s) (\<lambda>pa0 s.
                if pa0 = 0 then Done (-1, []) s
                else let n = min (unat (PGSIZE - (srcva - va0))) maxlen;
                         (bs, got_null) = copyinstr_page (mem s pa0) (unat (srcva - va0)) n
                     in if got_null then Done (0, bs) s
                        else bnd (copyinstr pagetable (va0 + PGSIZE) (maxlen - n) s) (\<lambda>(r, rest) s.
                               Done (r, bs @ rest) s))
      else Done (-1, []) s)"
  by pat_completeness auto
termination
  by (relation "measure (\<lambda>(pt, va, maxlen, s). maxlen)")
    (use page_chunk_pos in \<open>auto simp del: min_less_iff_conj\<close>)

declare copyout.simps [simp del] copyin.simps [simp del] copyinstr.simps [simp del]

end
