(* ===== verification/Xv6_Pagetable.thy ===== *)
theory Xv6_Pagetable
  imports Xv6_Vm "HOL-Library.Sublist"
begin

text \<open>
  What \<open>kernel/vm.c\<close> does, seen as operations on translations. \<open>pte_of m pt va\<close> is the
  entry that the table at \<open>pt\<close> holds for the page of \<open>va\<close> (0 where there is no level-0
  page). \<open>pt_ok\<close> is the invariant of a page table: its pages form a tree and none of them is
  on the free list. The theorems say what \<open>mappages\<close>, \<open>uvmunmap\<close>, \<open>uvmalloc\<close>, \<open>copyout\<close> and
  \<open>copyin\<close> do to translations, to user memory and to the pool of free pages.
\<close>

section \<open>Paths through a page table\<close>

abbreviation px :: "nat \<Rightarrow> u64 \<Rightarrow> 9 word" where
  "px level va \<equiv> ucast (PX level va)"

text \<open>The page reached by following the entries at a list of indices.\<close>

fun node :: "(u64 \<Rightarrow> page) \<Rightarrow> u64 \<Rightarrow> 9 word list \<Rightarrow> u64 option" where
  "node m pt [] = Some pt"
| "node m pt (i # is) = (if m pt i AND PTE_V \<noteq> 0 then node m (PTE2PA (m pt i)) is else None)"

definition pte_of :: "(u64 \<Rightarrow> page) \<Rightarrow> u64 \<Rightarrow> u64 \<Rightarrow> u64" where
  "pte_of m pt va = (case node m pt [px 2 va, px 1 va] of None \<Rightarrow> 0 | Some a \<Rightarrow> m a (px 0 va))"

definition pt_nodes :: "(u64 \<Rightarrow> page) \<Rightarrow> u64 \<Rightarrow> u64 set" where
  "pt_nodes m pt = {a. \<exists>p. length p \<le> 2 \<and> node m pt p = Some a}"

text \<open>No page is reached by two paths.\<close>

definition tree_ok :: "(u64 \<Rightarrow> page) \<Rightarrow> u64 \<Rightarrow> bool" where
  "tree_ok m pt \<longleftrightarrow> (\<forall>p q a. length p \<le> 2 \<longrightarrow> length q \<le> 2 \<longrightarrow>
     node m pt p = Some a \<longrightarrow> node m pt q = Some a \<longrightarrow> p = q)"

definition pt_ok :: "'z kmem_st_scheme \<Rightarrow> u64 \<Rightarrow> bool" where
  "pt_ok s pt \<longleftrightarrow> kmem_wf s \<and> tree_ok (mem s) pt \<and> pt_nodes (mem s) pt \<inter> free_set s = {}"

lemma tree_okD:
  "tree_ok m pt \<Longrightarrow> node m pt p = Some a \<Longrightarrow> node m pt q = Some a \<Longrightarrow> length p \<le> 2 \<Longrightarrow> length q \<le> 2 \<Longrightarrow> p = q"
  unfolding tree_ok_def by blast

lemma pt_nodesI: "node m pt p = Some a \<Longrightarrow> length p \<le> 2 \<Longrightarrow> a \<in> pt_nodes m pt"
  unfolding pt_nodes_def by blast

lemma node_append:
  "node m pt (p @ q) = (case node m pt p of None \<Rightarrow> None | Some b \<Rightarrow> node m b q)"
  by (induction p arbitrary: pt) auto

lemma node_zero_page: "m b = (\<lambda>_. 0) \<Longrightarrow> node m b q = (if q = [] then Some b else None)"
  by (cases q) auto

text \<open>Writing an entry of a node changes only the paths through that entry.\<close>

lemma node_write_other:
  assumes ok: "tree_ok m pt" and a: "node m pt p = Some a" "length p \<le> 2"
    and m': "\<And>b j. b \<noteq> a \<or> j \<noteq> i \<Longrightarrow> m' b j = m b j"
    and q: "length q \<le> 2" "\<not> prefix (p @ [i]) q"
  shows "node m' pt q = node m pt q"
proof -
  have "node m' b t = node m b t"
    if "node m pt r = Some b" "length (r @ t) \<le> 2" "\<not> prefix (p @ [i]) (r @ t)" for r b t
    using that
  proof (induction t arbitrary: r b)
    case (Cons j t)
    have "b \<noteq> a \<or> j \<noteq> i"
      using tree_okD [OF ok Cons.prems(1), of p] a Cons.prems(2,3) by auto
    then have "m' b j = m b j" by (rule m')
    moreover have "node m' (PTE2PA (m b j)) t = node m (PTE2PA (m b j)) t" if "m b j AND PTE_V \<noteq> 0"
      using Cons.prems that by (intro Cons.IH [of "r @ [j]"]) (auto simp: node_append)
    ultimately show ?case by auto
  qed simp
  from this [of "[]" pt q] q show ?thesis by simp
qed

text \<open>What a table says depends on its nodes only.\<close>

lemma node_cong:
  assumes "\<And>a. a \<in> pt_nodes m pt \<Longrightarrow> m' a = m a" and "length q \<le> 3"
  shows "node m' pt q = node m pt q"
proof -
  have "node m' b t = node m b t" if "node m pt r = Some b" "length (r @ t) \<le> 3" for r b t
    using that
  proof (induction t arbitrary: r b)
    case (Cons j t)
    have "m' b = m b" using Cons.prems by (intro assms(1) pt_nodesI [of m pt r]) auto
    then show ?case
      using Cons.prems Cons.IH [of "r @ [j]" "PTE2PA (m b j)"] by (auto simp: node_append)
  qed simp
  from this [of "[]" pt q] assms(2) show ?thesis by simp
qed

lemma pt_nodes_cong:
  assumes "\<And>a. a \<in> pt_nodes m pt \<Longrightarrow> m' a = m a"
  shows "pt_nodes m' pt = pt_nodes m pt" and "tree_ok m' pt = tree_ok m pt"
    and "pte_of m' pt va = pte_of m pt va"
proof -
  have n: "node m' pt q = node m pt q" if "length q \<le> 2" for q
    using assms that by (intro node_cong) auto
  then show "pt_nodes m' pt = pt_nodes m pt" "tree_ok m' pt = tree_ok m pt"
    unfolding pt_nodes_def tree_ok_def by (auto 4 4)
  show "pte_of m' pt va = pte_of m pt va"
    using assms pt_nodesI [of m pt "[px 2 va, px 1 va]"]
    by (auto simp del: node.simps simp: pte_of_def n split: option.split)
qed

section \<open>Virtual page numbers\<close>

lemma unat_px: "unat (px l va) = unat va div 2 ^ (12 + 9 * l) mod 512"
proof -
  have "PX l va = take_bit 9 (drop_bit (12 + 9 * l) va)"
    by (simp add: PX_def PXSHIFT_def take_bit_eq_mask mask_eq_exp_minus_1)
  then have "unat (PX l va) = unat va div 2 ^ (12 + 9 * l) mod 512"
    by (simp add: unat_take_bit unat_drop_bit)
  then show ?thesis by (simp add: unsigned_ucast_eq take_bit_nat_eq_self)
qed

text \<open>The three indices determine the page number of an address below \<open>MAXVA\<close>.\<close>

lemma px_eq_iff:
  assumes "va < MAXVA" and "vb < MAXVA"
  shows "px 2 va = px 2 vb \<and> px 1 va = px 1 vb \<and> px 0 va = px 0 vb
     \<longleftrightarrow> unat va div 4096 = unat vb div 4096"
proof -
  have split: "n = (n div 262144) mod 512 * 262144 + (n div 512) mod 512 * 512 + n mod 512"
    if "n < 67108864" for n :: nat
  proof -
    have "n div 262144 < 512" using that by (simp add: div_less_iff_less_mult)
    moreover have "n div 262144 = n div 512 div 512" by (simp add: div_mult2_eq [symmetric])
    ultimately have "n div 262144 mod 512 = n div 512 div 512" by simp
    then show ?thesis
      using div_mult_mod_eq [of n 512] div_mult_mod_eq [of "n div 512" 512] by linarith
  qed
  have px: "unat (px 2 v) = unat v div 4096 div 262144 mod 512"
    "unat (px 1 v) = unat v div 4096 div 512 mod 512" "unat (px 0 v) = unat v div 4096 mod 512" for v
    by (simp_all add: unat_px div_mult2_eq [symmetric])
  have "unat va div 4096 < 67108864" "unat vb div 4096 < 67108864"
    using assms by (simp_all add: word_less_nat_alt MAXVA_val div_less_iff_less_mult)
  note inj = this [THEN split]
  have "unat va div 4096 = unat vb div 4096"
    if "px 2 va = px 2 vb" "px 1 va = px 1 vb" "px 0 va = px 0 vb"
    using inj that by (simp only: word_unat_eq_iff px)
  then show ?thesis by (auto simp: word_unat_eq_iff px px(2) [unfolded One_nat_def])
qed

section \<open>Looking up an entry\<close>

lemma walk_lookup:
  assumes "va < MAXVA"
  shows "walk pt va False s =
     Done (map_option (\<lambda>a. (a, px 0 va)) (node (mem s) pt [px 2 va, px 1 va])) s"
  using assms by (simp add: walk_def numeral_2_eq_2 pte_at_def Let_def not_le [symmetric])

lemma walkaddr_eq:
  "walkaddr pt va s = Done (let e = pte_of (mem s) pt va
     in if va < MAXVA \<and> e AND PTE_V \<noteq> 0 \<and> e AND PTE_U \<noteq> 0 then PTE2PA e else 0) s"
  by (auto simp: walkaddr_def walk_lookup pte_of_def Let_def not_le simp del: node.simps
      split: option.split)

section \<open>Growing a table\<close>

lemma kmem_wf_mem_cong:
  assumes "freelist s' = freelist s" and "kend s' = kend s"
    and "\<And>a. a \<in> free_set s \<Longrightarrow> mem s' a = mem s a" and "kmem_wf s"
  shows "kmem_wf s'" and "free_set s' = free_set s"
proof -
  obtain xs where xs: "free_pages s xs" using assms(4) by (auto simp: kmem_wf_def)
  then have "chain (mem s') (freelist s) xs = chain (mem s) (freelist s) xs"
    using assms(3) by (intro chain_cong) (auto simp: free_set_eq)
  then have "free_pages s' xs"
    using xs assms(1,2) by (simp add: free_pages_def managed_def)
  then show "kmem_wf s'" "free_set s' = free_set s"
    using xs by (auto simp: kmem_wf_def free_set_eq)
qed

lemma fill_word_0 [simp]: "fill_word 0 = 0"
  by (simp add: fill_word_def)

lemma PTE_V_or [simp]: "(x OR PTE_V) AND PTE_V \<noteq> 0"
proof -
  have "bit ((x OR PTE_V) AND PTE_V) 0" by (simp add: PTE_V_def bit_simps)
  then show ?thesis by auto
qed

text \<open>
  Adding an empty page below a node: \<open>m'\<close> has a zeroed page at \<open>b\<close> and an entry for it at
  \<open>(a, i)\<close>, where there was none.
\<close>

lemma node_grow:
  assumes ok: "tree_ok m pt" and a: "node m pt p = Some a" "length p \<le> 1"
    and free: "m a i AND PTE_V = 0" and b: "b \<notin> pt_nodes m pt" "PTE2PA v = b" "v AND PTE_V \<noteq> 0"
    and m': "m' = (m(b := (\<lambda>_. 0)))(a := (m a)(i := v))" and q: "length q \<le> 2"
  shows "node m' pt q = (if q = p @ [i] then Some b else node m pt q)"
proof -
  let ?m = "m(b := (\<lambda>_. 0))"
  have ab: "a \<noteq> b" using a b(1) pt_nodesI by fastforce
  have cong: "node ?m pt r = node m pt r" if "length r \<le> 3" for r
    using b(1) that by (intro node_cong) auto
  have "tree_ok ?m pt = tree_ok m pt" using b(1) by (intro pt_nodes_cong(2)) auto
  with ok have ok': "tree_ok ?m pt" by simp
  have other: "node m' pt r = node m pt r" if "length r \<le> 2" "\<not> prefix (p @ [i]) r" for r
  proof -
    have "node m' pt r = node ?m pt r"
      using a that ab by (intro node_write_other [OF ok', of p a i]) (auto simp: m' cong)
    then show ?thesis using cong [of r] that by simp
  qed
  show ?thesis
  proof (cases "prefix (p @ [i]) q")
    case True
    then obtain t where t: "q = p @ i # t" by (auto elim: prefixE)
    have "node m' pt p = Some a" using other [of p] a by (auto dest: prefix_length_le)
    moreover have "node m' b t = (if t = [] then Some b else None)"
      using ab by (intro node_zero_page) (simp add: m')
    ultimately show ?thesis using t a free b by (simp add: node_append m')
  qed (use other q in auto)
qed

lemma grow_tree:
  assumes ok: "tree_ok m pt" and a: "node m pt p = Some a" "length p \<le> 1"
    and free: "m a i AND PTE_V = 0" and b: "b \<notin> pt_nodes m pt" "PTE2PA v = b" "v AND PTE_V \<noteq> 0"
    and m': "m' = (m(b := (\<lambda>_. 0)))(a := (m a)(i := v))"
  shows "tree_ok m' pt" and "pt_nodes m' pt = insert b (pt_nodes m pt)" and "pte_of m' pt = pte_of m pt"
proof -
  note n = node_grow [OF ok a free b m']
  show "tree_ok m' pt"
    unfolding tree_ok_def using n b(1) tree_okD [OF ok] pt_nodesI [of m pt]
    by (auto split: if_splits)
  show "pt_nodes m' pt = insert b (pt_nodes m pt)"
  proof (rule set_eqI)
    fix x
    have "x \<in> pt_nodes m' pt \<longleftrightarrow> (\<exists>q. length q \<le> 2 \<and> (if q = p @ [i] then x = b else node m pt q = Some x))"
      unfolding pt_nodes_def using n by (auto split: if_splits)
    moreover have "node m pt (p @ [i]) = None" using a free by (simp add: node_append)
    moreover have "(\<exists>q. length q \<le> 2 \<and> (if q = p @ [i] then x = b else node m pt q = Some x))
       \<longleftrightarrow> x = b \<or> (\<exists>q. length q \<le> 2 \<and> node m pt q = Some x)" if "node m pt (p @ [i]) = None"
      using a(2) that by (metis One_nat_def length_append_singleton not_less_eq_eq numeral_2_eq_2
        option.distinct(1))
    ultimately show "x \<in> pt_nodes m' pt \<longleftrightarrow> x \<in> insert b (pt_nodes m pt)"
      by (simp add: pt_nodes_def)
  qed
  show "pte_of m' pt = pte_of m pt"
  proof
    fix va
    let ?q = "[px 2 va, px 1 va]"
    have eq: "node m' pt ?q = (if ?q = p @ [i] then Some b else node m pt ?q)" by (rule n) simp
    have new: "node m pt (p @ [i]) = None" "m' b = (\<lambda>_. 0)" "a \<noteq> b"
      using a free b(1) pt_nodesI [OF a(1)] by (auto simp: node_append m')
    have "m' c j = m c j" if "node m pt ?q = Some c" "length ?q = 2" for c j
    proof -
      have "c \<noteq> a" using tree_okD [OF ok that(1), of p] a by auto
      moreover have "c \<noteq> b" using b(1) pt_nodesI [OF that(1)] by auto
      ultimately show ?thesis by (simp add: m')
    qed
    then show "pte_of m' pt va = pte_of m pt va"
      using eq new by (auto simp: pte_of_def simp del: node.simps split: option.split)
  qed
qed

text \<open>
  The effect of adding page-table pages: every translation is as before, the new nodes are
  exactly the pages that left the pool, and only nodes of the table have been written.
\<close>

definition pt_grows :: "u64 \<Rightarrow> 'z kmem_st_scheme \<Rightarrow> 'z kmem_st_scheme \<Rightarrow> bool" where
  "pt_grows pt s s' \<longleftrightarrow> pt_ok s' pt \<and> kend s' = kend s \<and> free_set s' \<subseteq> free_set s
     \<and> pt_nodes (mem s') pt = pt_nodes (mem s) pt \<union> (free_set s - free_set s')
     \<and> pte_of (mem s') pt = pte_of (mem s) pt
     \<and> (\<forall>q b. length q \<le> 2 \<longrightarrow> node (mem s) pt q = Some b \<longrightarrow> node (mem s') pt q = Some b)
     \<and> (\<forall>a. a \<notin> pt_nodes (mem s') pt \<longrightarrow> mem s' a = mem s a)"

lemma pt_grows_refl: "pt_ok s pt \<Longrightarrow> pt_grows pt s s"
  by (auto simp: pt_grows_def)

lemma pt_grows_trans: "pt_grows pt s s' \<Longrightarrow> pt_grows pt s' s'' \<Longrightarrow> pt_grows pt s s''"
  unfolding pt_grows_def by auto

lemma PTE2PA_new: "managed s b \<Longrightarrow> PTE2PA (PA2PTE b OR PTE_V) = b"
  by (rule PTE2PA_PA2PTE) (auto simp: managed_def unat_mod_PGSIZE PTE_V_def dvd_eq_mod_eq_0)

lemma grow_step:
  assumes ok: "pt_ok s pt" and a: "node (mem s) pt p = Some a" "length p \<le> 1"
    and free: "mem s a i AND PTE_V = 0" and b: "kalloc s = Done b s1" "b \<noteq> 0"
    and s2: "s2 = store_pte (a, i) (PA2PTE b OR PTE_V) (memset_page b 0 s1)"
  shows "pt_grows pt s s2" and "node (mem s2) pt (p @ [i]) = Some b"
proof -
  have wf: "kmem_wf s" "tree_ok (mem s) pt" and disj: "pt_nodes (mem s) pt \<inter> free_set s = {}"
    using ok by (auto simp: pt_ok_def)
  from wf(1) b have f: "b \<in> free_set s" "managed s b" "kmem_wf s1" "free_set s1 = free_set s - {b}"
    "kend s1 = kend s" "\<And>q. q \<noteq> b \<Longrightarrow> mem s1 q = mem s q"
    by (cases rule: kalloc_cases; auto)+
  have bn: "b \<notin> pt_nodes (mem s) pt" and an: "a \<in> pt_nodes (mem s) pt"
    using f(1) disj a pt_nodesI [OF a(1)] by auto
  then have m2: "mem s2 = ((mem s)(b := (\<lambda>_. 0)))(a := (mem s a)(i := PA2PTE b OR PTE_V))"
    using f(6) by (auto simp: s2 store_pte_def memset_page_def fun_eq_iff)
  note g = grow_tree [OF wf(2) a free bn PTE2PA_new [OF f(2)] PTE_V_or m2]
  note n = node_grow [OF wf(2) a free bn PTE2PA_new [OF f(2)] PTE_V_or m2]
  have "freelist s2 = freelist s1" "kend s2 = kend s1" by (simp_all add: s2 store_pte_def memset_page_def)
  moreover have "mem s2 c = mem s1 c" if "c \<in> free_set s1" for c
    using that disj an f(4,6) by (auto simp: m2)
  ultimately have k: "kmem_wf s2" "free_set s2 = free_set s1"
    using kmem_wf_mem_cong f(3) by metis+
  show "node (mem s2) pt (p @ [i]) = Some b" using n [of "p @ [i]"] a(2) by simp
  have old: "node (mem s) pt (p @ [i]) = None" using a free by (simp add: node_append)
  have "pt_ok s2 pt" using k g f(1,4) disj by (auto simp: pt_ok_def)
  moreover have "mem s2 c = mem s c" if "c \<notin> pt_nodes (mem s2) pt" for c
  proof -
    have "c \<noteq> a" "c \<noteq> b" using that an by (auto simp: g(2))
    then show ?thesis by (simp add: m2)
  qed
  ultimately show "pt_grows pt s s2"
    using k f(1,4,5) g(2,3) old n \<open>kend s2 = kend s1\<close> by (auto simp: pt_grows_def)
qed

fun walk_path :: "nat \<Rightarrow> u64 \<Rightarrow> 9 word list" where
  "walk_path 0 va = []"
| "walk_path (Suc l) va = px (Suc l) va # walk_path l va"

text \<open>\<open>walk\<close> with \<open>alloc\<close> reaches the level-0 page or runs out of memory.\<close>

lemma walk_from_alloc:
  assumes "pt_ok s pt" and "node (mem s) pt p = Some a" and "length p + l = 2"
  shows "returns (walk_from l a va True s) (\<lambda>r s'. pt_grows pt s s' \<and>
     (r = None \<longrightarrow> free_set s' = {}) \<and>
     (\<forall>b i. r = Some (b, i) \<longrightarrow> i = px 0 va \<and> node (mem s') pt (p @ walk_path l va) = Some b))"
  using assms
proof (induction l arbitrary: a p s)
  case 0
  then show ?case by (simp add: pte_at_def pt_grows_refl)
next
  case (Suc l)
  let ?i = "px (Suc l) va"
  show ?case
  proof (cases "mem s a ?i AND PTE_V = 0")
    case False
    with Suc.prems Suc.IH [of s "p @ [?i]" "PTE2PA (mem s a ?i)"] show ?thesis
      by (simp add: pte_at_def node_append Let_def)
  next
    case free: True
    have "kmem_wf s" using Suc.prems(1) by (simp add: pt_ok_def)
    then show ?thesis
    proof (cases rule: kalloc_cases)
      case empty
      with free Suc.prems(1) show ?thesis by (simp add: pte_at_def pt_grows_refl Let_def)
    next
      case (page b s1)
      let ?s2 = "store_pte (a, ?i) (PA2PTE b OR PTE_V) (memset_page b 0 s1)"
      have p: "length p \<le> 1" using Suc.prems(3) by simp
      note g = grow_step [OF Suc.prems(1,2) p free page(1,2) refl]
      have "pt_ok ?s2 pt" using g(1) by (simp add: pt_grows_def)
      have "length (p @ [?i]) + l = 2" using Suc.prems(3) by simp
      from Suc.IH [OF \<open>pt_ok ?s2 pt\<close> g(2) this]
      have "returns (walk_from l b va True ?s2) (\<lambda>r s'. pt_grows pt s s' \<and>
         (r = None \<longrightarrow> free_set s' = {}) \<and> (\<forall>c j. r = Some (c, j) \<longrightarrow> j = px 0 va
            \<and> node (mem s') pt (p @ walk_path (Suc l) va) = Some c))"
        by (rule returns_weaken) (auto intro: pt_grows_trans [OF g(1)])
      with free page show ?thesis by (simp add: pte_at_def Let_def)
    qed
  qed
qed

lemma walk_alloc:
  assumes "pt_ok s pt" and "va < MAXVA"
  shows "returns (walk pt va True s) (\<lambda>r s'. pt_grows pt s s' \<and>
     (r = None \<longrightarrow> free_set s' = {}) \<and>
     (\<forall>b i. r = Some (b, i) \<longrightarrow> i = px 0 va \<and> node (mem s') pt [px 2 va, px 1 va] = Some b))"
  using walk_from_alloc [of s pt "[]" pt 2 va] assms
  by (simp add: walk_def numeral_2_eq_2 not_le [symmetric] del: node.simps(2) walk_from.simps)

declare node.simps(2) [simp del]

section \<open>Writing entries\<close>

text \<open>The virtual page number of an address.\<close>

definition vpn :: "u64 \<Rightarrow> nat" where
  "vpn va = unat va div 4096"

text \<open>What every operation that only adds pages to a table and writes its nodes keeps.\<close>

definition pt_step :: "u64 \<Rightarrow> 'z kmem_st_scheme \<Rightarrow> 'z kmem_st_scheme \<Rightarrow> bool" where
  "pt_step pt s s' \<longleftrightarrow> pt_ok s' pt \<and> kend s' = kend s \<and> free_set s' \<subseteq> free_set s
     \<and> pt_nodes (mem s') pt = pt_nodes (mem s) pt \<union> (free_set s - free_set s')
     \<and> (\<forall>a. a \<notin> pt_nodes (mem s') pt \<longrightarrow> mem s' a = mem s a)"

lemma pt_step_trans: "pt_step pt s s' \<Longrightarrow> pt_step pt s' s'' \<Longrightarrow> pt_step pt s s''"
  unfolding pt_step_def by auto

lemma pt_step_ok: "pt_step pt s s' \<Longrightarrow> pt_ok s' pt"
  by (simp add: pt_step_def)

lemma pt_grows_step: "pt_grows pt s s' \<Longrightarrow> pt_step pt s s'"
  by (simp add: pt_grows_def pt_step_def)

lemma pt_grows_pte_of: "pt_grows pt s s' \<Longrightarrow> pte_of (mem s') pt = pte_of (mem s) pt"
  by (simp add: pt_grows_def)

lemma store_leaf:
  assumes ok: "pt_ok s pt" and a: "node (mem s) pt [px 2 va, px 1 va] = Some a" and va: "va < MAXVA"
    and s': "s' = store_pte (a, px 0 va) v s"
  shows "pt_step pt s s'" and "free_set s' = free_set s"
    and "\<And>vb. vb < MAXVA \<Longrightarrow> pte_of (mem s') pt vb = (if vpn vb = vpn va then v else pte_of (mem s) pt vb)"
proof -
  have tree: "tree_ok (mem s) pt" using ok by (simp add: pt_ok_def)
  have m': "mem s' b j = mem s b j" if "b \<noteq> a \<or> j \<noteq> px 0 va" for b j
    using that by (auto simp: s' store_pte_def)
  have n: "node (mem s') pt q = node (mem s) pt q" if "length q \<le> 2" for q
    using that m' by (intro node_write_other [OF tree a, of "px 0 va"]) (auto dest: prefix_length_le)
  have an: "a \<in> pt_nodes (mem s) pt" using a by (rule pt_nodesI) simp
  have nodes: "pt_nodes (mem s') pt = pt_nodes (mem s) pt" "tree_ok (mem s') pt"
    unfolding pt_nodes_def tree_ok_def using n tree_okD [OF tree] by auto
  have other: "mem s' c = mem s c" if "c \<noteq> a" for c using m' that by (intro ext) auto
  have "mem s' c = mem s c" if "c \<in> free_set s" for c
    using that ok an by (intro other) (auto simp: pt_ok_def)
  then have k: "kmem_wf s'" "free_set s' = free_set s"
    using ok kmem_wf_mem_cong [of s' s] by (auto simp: pt_ok_def s' store_pte_def)
  then show "free_set s' = free_set s" by simp
  show "pt_step pt s s'"
    using ok k nodes an other by (auto simp: pt_step_def pt_ok_def s' store_pte_def)
  show "pte_of (mem s') pt vb = (if vpn vb = vpn va then v else pte_of (mem s) pt vb)" if vb: "vb < MAXVA" for vb
  proof (cases "vpn vb = vpn va")
    case True
    then have "px 2 vb = px 2 va" "px 1 vb = px 1 va" "px 0 vb = px 0 va"
      using px_eq_iff [OF vb va] by (auto simp: vpn_def)
    with True a n [of "[px 2 va, px 1 va]"] show ?thesis
      by (simp add: pte_of_def s' store_pte_def del: node.simps)
  next
    case False
    then have "\<not> (px 2 vb = px 2 va \<and> px 1 vb = px 1 va \<and> px 0 vb = px 0 va)"
      using px_eq_iff [OF vb va] by (auto simp: vpn_def)
    moreover have "[px 2 vb, px 1 vb] = [px 2 va, px 1 va]" if "node (mem s) pt [px 2 vb, px 1 vb] = Some a"
      using tree_okD [OF tree that a] by simp
    ultimately have "mem s' c (px 0 vb) = mem s c (px 0 vb)" if "node (mem s) pt [px 2 vb, px 1 vb] = Some c" for c
      using that by (intro m') auto
    with False n [of "[px 2 vb, px 1 vb]"] show ?thesis
      by (simp add: pte_of_def del: node.simps split: option.split)
  qed
qed

section \<open>mappages\<close>

lemma next_page:
  assumes "unat a + Suc n * 4096 < unat MAXVA"
  shows "unat (a + PGSIZE) = unat a + 4096" and "vpn (a + PGSIZE) = Suc (vpn a)"
proof -
  show "unat (a + PGSIZE) = unat a + 4096"
    using assms by (subst unat_add_64) (auto simp: MAXVA_val)
  then show "vpn (a + PGSIZE) = Suc (vpn a)" by (simp add: vpn_def)
qed

text \<open>The translation \<open>f\<close> with \<open>n\<close> pages from \<open>a\<close> on mapped to consecutive frames from \<open>pa\<close> on.\<close>

definition map_range :: "u64 \<Rightarrow> nat \<Rightarrow> u64 \<Rightarrow> u64 \<Rightarrow> (u64 \<Rightarrow> u64) \<Rightarrow> u64 \<Rightarrow> u64" where
  "map_range a n pa perm f vb =
     (if vpn a \<le> vpn vb \<and> vpn vb < vpn a + n
      then PA2PTE (pa + of_nat (vpn vb - vpn a) * PGSIZE) OR perm OR PTE_V else f vb)"

lemma map_range_Suc:
  assumes "vpn (a + PGSIZE) = Suc (vpn a)"
  shows "map_range (a + PGSIZE) n (pa + PGSIZE) perm
       (\<lambda>vb. if vpn vb = vpn a then PA2PTE pa OR perm OR PTE_V else f vb) vb
     = map_range a (Suc n) pa perm f vb"
proof -
  have "pa + PGSIZE + of_nat (vpn vb - Suc (vpn a)) * PGSIZE = pa + of_nat (vpn vb - vpn a) * PGSIZE"
    if "Suc (vpn a) \<le> vpn vb"
  proof -
    have "vpn vb - vpn a = Suc (vpn vb - Suc (vpn a))" using that by simp
    then show ?thesis by (simp add: algebra_simps del: of_nat_diff)
  qed
  then show ?thesis by (auto simp: map_range_def assms add.assoc simp del: of_nat_diff)
qed

lemma map_range_cong: "f vb = g vb \<Longrightarrow> map_range a n pa perm f vb = map_range a n pa perm g vb"
  by (simp add: map_range_def)

text \<open>One iteration of the loop.\<close>

lemma map_one:
  assumes "pt_ok s pt" and "a < MAXVA"
  shows "returns (walk pt a True s) (\<lambda>r s1. pt_step pt s s1 \<and> pte_of (mem s1) pt = pte_of (mem s) pt \<and>
     (r = None \<longrightarrow> free_set s1 = {}) \<and>
     (\<forall>p. r = Some p \<longrightarrow> load_pte s1 p = pte_of (mem s) pt a \<and>
        (\<forall>v. pt_step pt s (store_pte p v s1) \<and> (\<forall>vb < MAXVA.
           pte_of (mem (store_pte p v s1)) pt vb = (if vpn vb = vpn a then v else pte_of (mem s) pt vb)))))"
proof (rule returns_weaken [OF walk_alloc [OF assms]], goal_cases)
  case (1 r s1)
  have load: "mem s1 b (px 0 a) = pte_of (mem s) pt a" if "node (mem s1) pt [px 2 a, px 1 a] = Some b" for b
    using that 1 by (simp add: pt_grows_pte_of [symmetric, of pt s s1] pte_of_def del: node.simps)
  have store: "pt_step pt s (store_pte (b, px 0 a) v s1) \<and> (\<forall>vb < MAXVA.
      pte_of (mem (store_pte (b, px 0 a) v s1)) pt vb = (if vpn vb = vpn a then v else pte_of (mem s) pt vb))"
    if n: "node (mem s1) pt [px 2 a, px 1 a] = Some b" for b v
  proof -
    have "pt_ok s1 pt" and g: "pt_step pt s s1" "pte_of (mem s1) pt = pte_of (mem s) pt"
      using 1 by (auto simp: pt_grows_pte_of dest: pt_grows_step pt_step_ok)
    from store_leaf [OF this(1) n assms(2) refl, where v = v] show ?thesis
      using pt_step_trans [OF g(1)] g(2) by auto
  qed
  show ?case using 1 load store by (auto simp: pt_grows_pte_of dest: pt_grows_step)
qed

lemma mappages_iteration:
  assumes "pt_ok s pt" and "a < MAXVA" and "pte_of (mem s) pt a AND PTE_V = 0"
    and fail: "\<And>s1. pt_step pt s s1 \<Longrightarrow> pte_of (mem s1) pt = pte_of (mem s) pt \<Longrightarrow> free_set s1 = {} \<Longrightarrow> Q (-1) s1"
    and step: "\<And>s1. pt_step pt s s1 \<Longrightarrow> (\<And>vb. vb < MAXVA \<Longrightarrow> pte_of (mem s1) pt vb =
         (if vpn vb = vpn a then PA2PTE pa OR perm OR PTE_V else pte_of (mem s) pt vb)) \<Longrightarrow>
       returns (if a = last_a then Done 0 s1
                else mappages_from pt (a + PGSIZE) last_a (pa + PGSIZE) perm s1) Q"
  shows "returns (mappages_from pt a last_a pa perm s) Q"
  unfolding mappages_from.simps [of pt a last_a]
proof (rule returns_bnd [OF map_one [OF assms(1,2)]], goal_cases)
  case (1 r s1)
  show ?case
  proof (cases r)
    case None
    with 1 fail show ?thesis by simp
  next
    case (Some p)
    with 1 assms(3) step show ?thesis by (simp add: Let_def)
  qed
qed

lemma mappages_from_spec:
  assumes "pt_ok s pt" and "unat a + Suc n * 4096 \<le> unat MAXVA" and "unat last_a = unat a + n * 4096"
    and "\<forall>vb < MAXVA. vpn a \<le> vpn vb \<and> vpn vb \<le> vpn a + n \<longrightarrow> pte_of (mem s) pt vb AND PTE_V = 0"
  shows "returns (mappages_from pt a last_a pa perm s) (\<lambda>r s'. pt_step pt s s' \<and>
     (r = 0 \<and> (\<forall>vb < MAXVA. pte_of (mem s') pt vb = map_range a (Suc n) pa perm (pte_of (mem s) pt) vb)
      \<or> r = -1 \<and> free_set s' = {} \<and> (\<forall>vb < MAXVA. vpn vb < vpn a \<or> vpn a + n < vpn vb \<longrightarrow>
            pte_of (mem s') pt vb = pte_of (mem s) pt vb)))"
  using assms
proof (induction n arbitrary: a pa s)
  case 0
  then have "a < MAXVA" "last_a = a" by (auto simp: word_less_nat_alt word_unat_eq_iff)
  with 0 show ?case by (intro mappages_iteration) (auto simp: map_range_def)
next
  case (Suc n)
  then have a: "a < MAXVA" "a \<noteq> last_a" by (auto simp: word_less_nat_alt)
  note up = next_page [of a n]
  show ?case
  proof (rule mappages_iteration [OF Suc.prems(1) a(1)], goal_cases)
    case (3 s1)
    let ?Q = "\<lambda>r s'. pt_step pt s1 s' \<and> (r = 0 \<and> (\<forall>vb < MAXVA. pte_of (mem s') pt vb
        = map_range (a + PGSIZE) (Suc n) (pa + PGSIZE) perm (pte_of (mem s1) pt) vb)
      \<or> r = -1 \<and> free_set s' = {} \<and> (\<forall>vb < MAXVA. vpn vb < vpn (a + PGSIZE) \<or> vpn (a + PGSIZE) + n < vpn vb \<longrightarrow>
            pte_of (mem s') pt vb = pte_of (mem s1) pt vb))"
    have "returns (mappages_from pt (a + PGSIZE) last_a (pa + PGSIZE) perm s1) ?Q"
      using Suc.prems 3 up by (intro Suc.IH) (auto dest: pt_step_ok)
    then have "returns (mappages_from pt (a + PGSIZE) last_a (pa + PGSIZE) perm s1) (\<lambda>r s'. pt_step pt s s' \<and>
     (r = 0 \<and> (\<forall>vb < MAXVA. pte_of (mem s') pt vb = map_range a (Suc (Suc n)) pa perm (pte_of (mem s) pt) vb)
      \<or> r = -1 \<and> free_set s' = {} \<and> (\<forall>vb < MAXVA. vpn vb < vpn a \<or> vpn a + Suc n < vpn vb \<longrightarrow>
            pte_of (mem s') pt vb = pte_of (mem s) pt vb)))"
    proof (rule returns_weaken, goal_cases)
      case (1 r s')
      have "map_range (a + PGSIZE) (Suc n) (pa + PGSIZE) perm (pte_of (mem s1) pt) vb
          = map_range a (Suc (Suc n)) pa perm (pte_of (mem s) pt) vb" if "vb < MAXVA" for vb
        using 3(2) [OF that] up Suc.prems(2) by (subst map_range_Suc [symmetric]) (auto intro: map_range_cong)
      with 1 3 up Suc.prems(2) show ?case by (auto intro: pt_step_trans)
    qed
    with a show ?case by simp
  qed (use Suc.prems a in auto)
qed

lemma vpn_PGROUNDDOWN: "unat (PGROUNDDOWN va) = vpn va * 4096" and vpn_PGROUNDDOWN_eq [simp]: "vpn (PGROUNDDOWN va) = vpn va"
  by (simp_all add: vpn_def unat_PGROUNDDOWN minus_mod_eq_div_mult)

lemma vpn_mono: "unat x \<le> unat y \<Longrightarrow> vpn x \<le> vpn y"
  by (simp add: vpn_def div_le_mono)

lemma vpn_below_MAXVA: "va < MAXVA \<longleftrightarrow> vpn va < 67108864"
  by (simp add: vpn_def word_less_nat_alt MAXVA_val div_less_iff_less_mult)

lemma unat_range_end:
  fixes va sz :: u64
  assumes "0 < sz" and "unat va + unat sz \<le> unat MAXVA"
  shows "unat (va + sz - 1) = unat va + unat sz - 1"
proof -
  have "unat (va + sz) = unat va + unat sz"
    using assms(2) by (intro unat_add_64) (simp add: MAXVA_val)
  moreover have "0 < unat sz" using assms(1) by (simp add: word_less_nat_alt)
  ultimately show ?thesis by (subst unat_minus_one) auto
qed

text \<open>The page range of \<open>mappages\<close> and \<open>uvmunmap\<close>, as the loop sees it.\<close>

lemma page_range:
  assumes "0 < sz" and "unat va + unat sz \<le> unat MAXVA"
  obtains n where "unat (PGROUNDDOWN va) + Suc n * 4096 \<le> unat MAXVA"
    "unat (PGROUNDDOWN (va + sz - 1)) = unat (PGROUNDDOWN va) + n * 4096"
    "vpn (va + sz - 1) = vpn va + n"
proof -
  have "0 < unat sz" using assms(1) by (simp add: word_less_nat_alt)
  then have e: "unat (va + sz - 1) = unat va + unat sz - 1" "unat (va + sz - 1) < unat MAXVA"
    using unat_range_end [OF assms] assms(2) by auto
  then have "vpn va \<le> vpn (va + sz - 1)" "vpn (va + sz - 1) < 67108864"
    using \<open>0 < unat sz\<close> vpn_below_MAXVA [of "va + sz - 1"]
    by (auto intro: vpn_mono simp: word_less_nat_alt)
  then show ?thesis
    by (intro that [of "vpn (va + sz - 1) - vpn va"])
      (auto simp: vpn_PGROUNDDOWN unat_MAXVA algebra_simps)
qed

text \<open>A zeroed page is an empty page table.\<close>

lemma pt_ok_empty:
  assumes "kmem_wf s" and "mem s pt = (\<lambda>_. 0)" and "pt \<notin> free_set s"
  shows "pt_ok s pt" and "pte_of (mem s) pt va = 0" and "pt_nodes (mem s) pt = {pt}"
proof -
  note n = node_zero_page [of "mem s" pt, OF assms(2)]
  show p: "pt_nodes (mem s) pt = {pt}"
    using n by (auto simp: pt_nodes_def split: if_splits intro: exI [of _ "[]"])
  show "pt_ok s pt" using assms p n by (auto simp: pt_ok_def tree_ok_def split: if_splits)
  show "pte_of (mem s) pt va = 0" by (simp add: pte_of_def n)
qed

text \<open>
  C5: \<open>mappages\<close> maps exactly the pages that the range touches. On a table whose range has no
  valid entry it returns; result 0 means that each page of the range now has the entry of the
  corresponding frame with the given permissions, and every other translation is as it was;
  result -1 means that memory ran out, and translations outside the range are as they were.
  Either way the table is still a tree, its new nodes are exactly the pages taken from the
  pool, and no other page of memory has changed.
\<close>

theorem mappages_correct:
  assumes "pt_ok s pt" and "0 < sz" and "unat va + unat sz \<le> unat MAXVA"
    and "\<forall>vb < MAXVA. vpn va \<le> vpn vb \<and> vpn vb \<le> vpn (va + sz - 1) \<longrightarrow> pte_of (mem s) pt vb AND PTE_V = 0"
  shows "\<exists>r s'. mappages pt va sz pa perm s = Done r s' \<and> pt_step pt s s' \<and>
     (r = 0 \<and> (\<forall>vb < MAXVA. pte_of (mem s') pt vb =
          (if vpn va \<le> vpn vb \<and> vpn vb \<le> vpn (va + sz - 1)
           then PA2PTE (pa + of_nat (vpn vb - vpn va) * PGSIZE) OR perm OR PTE_V
           else pte_of (mem s) pt vb))
      \<or> r = -1 \<and> free_set s' = {} \<and> (\<forall>vb < MAXVA. vpn vb < vpn va \<or> vpn (va + sz - 1) < vpn vb \<longrightarrow>
            pte_of (mem s') pt vb = pte_of (mem s) pt vb))"
proof -
  obtain n where n: "unat (PGROUNDDOWN va) + Suc n * 4096 \<le> unat MAXVA"
    "unat (PGROUNDDOWN (va + sz - 1)) = unat (PGROUNDDOWN va) + n * 4096" "vpn (va + sz - 1) = vpn va + n"
    using page_range [OF assms(2,3)] by blast
  have "\<forall>vb < MAXVA. vpn (PGROUNDDOWN va) \<le> vpn vb \<and> vpn vb \<le> vpn (PGROUNDDOWN va) + n \<longrightarrow>
     pte_of (mem s) pt vb AND PTE_V = 0"
    using assms(4) n(3) by simp
  note spec = mappages_from_spec [OF assms(1) n(1,2) this, of pa perm]
  have "map_range (PGROUNDDOWN va) (Suc n) pa perm f vb =
     (if vpn va \<le> vpn vb \<and> vpn vb \<le> vpn (va + sz - 1)
      then PA2PTE (pa + of_nat (vpn vb - vpn va) * PGSIZE) OR perm OR PTE_V else f vb)" for f vb
    by (simp add: map_range_def n(3) less_Suc_eq_le)
  from spec [unfolded this] show ?thesis
    unfolding mappages_def returns_iff vpn_PGROUNDDOWN_eq n(3) [symmetric] by blast
qed

text \<open>A small concrete machine: three free pages and an empty page table at \<open>0x3000\<close>.\<close>

definition example_vm :: kmem_st where
  "example_vm = \<lparr>kend = 0x1000,
     mem = (\<lambda>_ _. 0)(0x1000 := (\<lambda>_. 0)(0 := 0x2000), 0x2000 := (\<lambda>_. 0)(0 := 0x4000)),
     freelist = 0x1000\<rparr>"

lemma example_vm_ok:
  "free_set example_vm = {0x1000, 0x2000, 0x4000}" "pt_ok example_vm 0x3000"
  "pte_of (mem example_vm) 0x3000 va = 0" "pt_nodes (mem example_vm) 0x3000 = {0x3000}"
proof -
  have "free_pages example_vm [0x1000, 0x2000, 0x4000]"
    by (simp add: free_pages_def example_vm_def managed_def PGSIZE_def PHYSTOP_val)
  then have f: "kmem_wf example_vm" "free_set example_vm = {0x1000, 0x2000, 0x4000}"
    by (auto simp: kmem_wf_def free_set_eq)
  then show "free_set example_vm = {0x1000, 0x2000, 0x4000}" by simp
  have "mem example_vm 0x3000 = (\<lambda>_. 0)" by (simp add: example_vm_def)
  from pt_ok_empty [OF f(1) this] show "pt_ok example_vm 0x3000"
    "pte_of (mem example_vm) 0x3000 va = 0" "pt_nodes (mem example_vm) 0x3000 = {0x3000}"
    by (simp_all add: f(2))
qed

theorem mappages_correct_witness:
  "\<exists>r s'. mappages 0x3000 0x5000 0x1000 0x6000 PTE_R example_vm = Done r s' \<and> pt_ok s' 0x3000
     \<and> (r = 0 \<and> pte_of (mem s') 0x3000 0x5000 = PA2PTE 0x6000 OR PTE_R OR PTE_V
        \<or> r = -1 \<and> free_set s' = {})"
proof -
  have "(0x5000 :: u64) < MAXVA" by (simp add: MAXVA_val)
  moreover have "vpn 0x5000 = 5" "vpn 0x5FFF = 5" by (simp_all add: vpn_def)
  ultimately show ?thesis
    using mappages_correct [OF example_vm_ok(2), of "0x1000" "0x5000" "0x6000" PTE_R]
    by (fastforce simp: example_vm_ok(3) unat_MAXVA dest: pt_step_ok)
qed

section \<open>uvmunmap\<close>

text \<open>
  The effect of removing mappings: the frames \<open>F\<close> have gone to the pool, the nodes are the
  same, and only nodes and frames in \<open>F\<close> have been written.
\<close>

definition pt_frees :: "u64 \<Rightarrow> u64 set \<Rightarrow> 'z kmem_st_scheme \<Rightarrow> 'z kmem_st_scheme \<Rightarrow> bool" where
  "pt_frees pt F s s' \<longleftrightarrow> pt_ok s' pt \<and> kend s' = kend s \<and> free_set s' = free_set s \<union> F
     \<and> pt_nodes (mem s') pt = pt_nodes (mem s) pt
     \<and> (\<forall>a. a \<notin> pt_nodes (mem s) pt \<longrightarrow> a \<notin> F \<longrightarrow> mem s' a = mem s a)"

lemma pt_frees_trans: "pt_frees pt F s s' \<Longrightarrow> pt_frees pt G s' s'' \<Longrightarrow> pt_frees pt (F \<union> G) s s''"
  unfolding pt_frees_def by auto

lemma pt_frees_refl: "pt_ok s pt \<Longrightarrow> pt_frees pt {} s s"
  by (simp add: pt_frees_def)

lemma kfree_pt:
  assumes ok: "pt_ok s pt" and p: "managed s p" "p \<notin> free_set s" "p \<notin> pt_nodes (mem s) pt"
  obtains s' where "kfree p s = Done () s'" "pt_frees pt {p} s s'" "pte_of (mem s') pt = pte_of (mem s) pt"
    "\<And>q. length q \<le> 3 \<Longrightarrow> node (mem s') pt q = node (mem s) pt q"
proof -
  have "kmem_wf s" using ok by (simp add: pt_ok_def)
  from kfree_inserts [OF this p(1,2)] obtain s' where s': "kfree p s = Done () s'" "kmem_wf s'"
    "free_set s' = insert p (free_set s)" "kend s' = kend s" "\<And>q. q \<noteq> p \<Longrightarrow> mem s' q = mem s q" by metis
  have same: "mem s' a = mem s a" if "a \<in> pt_nodes (mem s) pt" for a
    using that p(3) s'(5) [of a] by blast
  note c = pt_nodes_cong [of "mem s" pt "mem s'", OF same]
  have "pt_frees pt {p} s s'" using ok s' p(3) c by (auto simp: pt_frees_def pt_ok_def)
  then show ?thesis using s'(1) c(3) same by (intro that [of s']) (auto intro: node_cong)
qed

text \<open>The addresses of \<open>n\<close> pages from page number \<open>k\<close> on, and the frames they are mapped to.\<close>

definition pages :: "nat \<Rightarrow> nat \<Rightarrow> u64 set" where
  "pages k n = {vb. vb < MAXVA \<and> k \<le> vpn vb \<and> vpn vb < k + n}"

definition frames :: "(u64 \<Rightarrow> page) \<Rightarrow> u64 \<Rightarrow> nat \<Rightarrow> nat \<Rightarrow> u64 set" where
  "frames m pt k n = (\<lambda>vb. PTE2PA (pte_of m pt vb)) ` pages k n"

text \<open>
  What \<open>uvmunmap\<close> needs of the pages it unmaps: leaf entries, and, when it frees the frames,
  frames that may be freed, each mapped once.
\<close>

definition leaf_pte :: "u64 \<Rightarrow> bool" where
  "leaf_pte e \<longleftrightarrow> e AND PTE_V \<noteq> 0 \<and> PTE_FLAGS e \<noteq> PTE_V"

definition owned :: "'z kmem_st_scheme \<Rightarrow> u64 \<Rightarrow> u64 \<Rightarrow> bool" where
  "owned s pt pa \<longleftrightarrow> managed s pa \<and> pa \<notin> free_set s \<and> pa \<notin> pt_nodes (mem s) pt"

definition can_unmap :: "'z kmem_st_scheme \<Rightarrow> u64 \<Rightarrow> nat \<Rightarrow> nat \<Rightarrow> bool \<Rightarrow> bool" where
  "can_unmap s pt k n do_free \<longleftrightarrow> (\<forall>vb \<in> pages k n. leaf_pte (pte_of (mem s) pt vb)) \<and>
     (do_free \<longrightarrow> (\<forall>pa \<in> frames (mem s) pt k n. owned s pt pa) \<and>
        (\<forall>vb \<in> pages k n. \<forall>vc \<in> pages k n.
           vpn vb < vpn vc \<longrightarrow> PTE2PA (pte_of (mem s) pt vb) \<noteq> PTE2PA (pte_of (mem s) pt vc)))"

lemma pages_Suc: "pages k (Suc n) = {vb. vb < MAXVA \<and> vpn vb = k} \<union> pages (Suc k) n"
  by (auto simp: pages_def)

lemma pte_of_vpn: "va < MAXVA \<Longrightarrow> vb < MAXVA \<Longrightarrow> vpn va = vpn vb \<Longrightarrow> pte_of m pt va = pte_of m pt vb"
  using px_eq_iff [of va vb] by (auto simp: pte_of_def vpn_def split: option.split)

lemma pt_step_frees:
  assumes "pt_step pt s s'" and "free_set s' = free_set s"
  shows "pt_frees pt {} s s'"
  using assms by (auto simp: pt_step_def pt_frees_def)

lemma unmap_iteration:
  assumes ok: "pt_ok s pt" and a: "a < MAXVA" and e: "e = pte_of (mem s) pt a"
    and v: "leaf_pte e" and f: "do_free \<Longrightarrow> owned s pt (PTE2PA e)"
  obtains s1 where "uvmunmap_from pt a last_a do_free s =
       (if a = last_a then Done () s1 else uvmunmap_from pt (a + PGSIZE) last_a do_free s1)"
    "pt_frees pt (if do_free then {PTE2PA e} else {}) s s1"
    "\<And>vb. vb < MAXVA \<Longrightarrow> pte_of (mem s1) pt vb = (if vpn vb = vpn a then 0 else pte_of (mem s) pt vb)"
proof -
  obtain b where b: "node (mem s) pt [px 2 a, px 1 a] = Some b" "mem s b (px 0 a) = e"
    using v e by (auto simp: pte_of_def leaf_pte_def split: option.splits)
  obtain s0 where s0: "(if do_free then kfree (PTE2PA e) s else Done () s) = Done () s0"
    "pt_frees pt (if do_free then {PTE2PA e} else {}) s s0" "pte_of (mem s0) pt = pte_of (mem s) pt"
    "node (mem s0) pt [px 2 a, px 1 a] = Some b"
  proof (cases do_free)
    case True
    with f have "managed s (PTE2PA e)" "PTE2PA e \<notin> free_set s" "PTE2PA e \<notin> pt_nodes (mem s) pt"
      by (auto simp: owned_def)
    from kfree_pt [OF ok this] obtain s' where "kfree (PTE2PA e) s = Done () s'"
      "pt_frees pt {PTE2PA e} s s'" "pte_of (mem s') pt = pte_of (mem s) pt"
      "\<And>q. length q \<le> 3 \<Longrightarrow> node (mem s') pt q = node (mem s) pt q" by blast
    with True b(1) show ?thesis by (intro that [of s']) auto
  qed (use b(1) pt_frees_refl [OF ok] in \<open>auto intro: that\<close>)
  let ?s1 = "store_pte (b, px 0 a) 0 s0"
  have ok0: "pt_ok s0 pt" using s0(2) by (simp add: pt_frees_def)
  note st = store_leaf [OF ok0 s0(4) a refl, where v = 0]
  have "pt_frees pt (if do_free then {PTE2PA e} else {}) s ?s1"
    using pt_frees_trans [OF s0(2) pt_step_frees [OF st(1,2)]] by simp
  moreover have "uvmunmap_from pt a last_a do_free s =
       (if a = last_a then Done () ?s1 else uvmunmap_from pt (a + PGSIZE) last_a do_free ?s1)"
    unfolding uvmunmap_from.simps [of pt a] walk_lookup [OF a] using b(1) v s0(1)
    unfolding b(2) [symmetric] by (cases do_free) (auto simp: Let_def leaf_pte_def)
  ultimately show ?thesis using st(3) s0(3) by (intro that [of ?s1]) auto
qed

lemma can_unmapD:
  assumes "can_unmap s pt k n do_free" and "vb \<in> pages k n"
  shows "leaf_pte (pte_of (mem s) pt vb)"
    and "do_free \<Longrightarrow> owned s pt (PTE2PA (pte_of (mem s) pt vb))"
    and "do_free \<Longrightarrow> vc \<in> pages k n \<Longrightarrow> vpn vb < vpn vc \<Longrightarrow>
       PTE2PA (pte_of (mem s) pt vb) \<noteq> PTE2PA (pte_of (mem s) pt vc)"
  using assms unfolding can_unmap_def frames_def by blast+

text \<open>After the first page of a range has been unmapped the rest can still be.\<close>

lemma can_unmap_rest:
  assumes c: "can_unmap s pt (vpn a) (Suc n) do_free" and a: "a < MAXVA"
    and fr: "pt_frees pt (if do_free then {PTE2PA (pte_of (mem s) pt a)} else {}) s s1"
    and p: "\<And>vb. vb < MAXVA \<Longrightarrow> pte_of (mem s1) pt vb = (if vpn vb = vpn a then 0 else pte_of (mem s) pt vb)"
  shows "can_unmap s1 pt (Suc (vpn a)) n do_free"
    and "frames (mem s) pt (vpn a) (Suc n) = insert (PTE2PA (pte_of (mem s) pt a)) (frames (mem s1) pt (Suc (vpn a)) n)"
proof -
  let ?e = "PTE2PA (pte_of (mem s) pt a)"
  have rest: "pte_of (mem s1) pt vb = pte_of (mem s) pt vb" if "vb \<in> pages (Suc (vpn a)) n" for vb
    using that p [of vb] by (auto simp: pages_def)
  then have fr1: "frames (mem s1) pt (Suc (vpn a)) n = (\<lambda>vb. PTE2PA (pte_of (mem s) pt vb)) ` pages (Suc (vpn a)) n"
    unfolding frames_def by (intro image_cong) auto
  have "PTE2PA (pte_of (mem s) pt vb) = ?e" if "vb < MAXVA" "vpn vb = vpn a" for vb
    using pte_of_vpn [OF that(1) a that(2)] by simp
  then have "(\<lambda>vb. PTE2PA (pte_of (mem s) pt vb)) ` {vb. vb < MAXVA \<and> vpn vb = vpn a} \<subseteq> {?e}"
    by (intro image_subsetI) simp
  moreover have "?e \<in> (\<lambda>vb. PTE2PA (pte_of (mem s) pt vb)) ` {vb. vb < MAXVA \<and> vpn vb = vpn a}"
    using a by (intro image_eqI [of _ _ a]) simp_all
  ultimately have "(\<lambda>vb. PTE2PA (pte_of (mem s) pt vb)) ` {vb. vb < MAXVA \<and> vpn vb = vpn a} = {?e}"
    by (simp only: subset_singleton_iff) blast
  then show "frames (mem s) pt (vpn a) (Suc n) = insert ?e (frames (mem s1) pt (Suc (vpn a)) n)"
    unfolding fr1 frames_def [of "mem s"] pages_Suc image_Un by simp
  have sub: "pages (Suc (vpn a)) n \<subseteq> pages (vpn a) (Suc n)" and in_a: "a \<in> pages (vpn a) (Suc n)"
    using a by (auto simp: pages_def)
  have new: "PTE2PA (pte_of (mem s) pt vb) \<noteq> ?e" if "do_free" "vb \<in> pages (Suc (vpn a)) n" for vb
    using can_unmapD(3) [OF c in_a that(1), of vb] that(2) sub by (auto simp: pages_def)
  have "owned s1 pt (PTE2PA (pte_of (mem s) pt vb))" if "do_free" "vb \<in> pages (Suc (vpn a)) n" for vb
  proof -
    have "owned s pt (PTE2PA (pte_of (mem s) pt vb))"
      using can_unmapD(2) [OF c _ that(1)] that(2) sub by (simp add: subset_iff)
    moreover have "kend s1 = kend s" "pt_nodes (mem s1) pt = pt_nodes (mem s) pt" "free_set s1 = free_set s \<union> {?e}"
      using fr that(1) by (simp_all add: pt_frees_def)
    ultimately show ?thesis using new [OF that] by (simp add: owned_def managed_def)
  qed
  moreover have "leaf_pte (pte_of (mem s) pt vb)" if "vb \<in> pages (Suc (vpn a)) n" for vb
    using can_unmapD(1) [OF c] that sub by (simp add: subset_iff)
  moreover have "PTE2PA (pte_of (mem s) pt vb) \<noteq> PTE2PA (pte_of (mem s) pt vc)"
    if "do_free" "vb \<in> pages (Suc (vpn a)) n" "vc \<in> pages (Suc (vpn a)) n" "vpn vb < vpn vc" for vb vc
    using can_unmapD(3) [OF c _ that(1), of vb vc] that sub by (simp add: subset_iff)
  ultimately show "can_unmap s1 pt (Suc (vpn a)) n do_free"
    unfolding can_unmap_def fr1 by (simp add: rest)
qed

lemma uvmunmap_from_spec:
  assumes "pt_ok s pt" and "unat a + Suc n * 4096 \<le> unat MAXVA" and "unat last_a = unat a + n * 4096"
    and "can_unmap s pt (vpn a) (Suc n) do_free"
  shows "returns (uvmunmap_from pt a last_a do_free s) (\<lambda>_ s'.
     pt_frees pt (if do_free then frames (mem s) pt (vpn a) (Suc n) else {}) s s' \<and>
     (\<forall>vb < MAXVA. pte_of (mem s') pt vb =
        (if vpn a \<le> vpn vb \<and> vpn vb \<le> vpn a + n then 0 else pte_of (mem s) pt vb)))"
  using assms
proof (induction n arbitrary: a s)
  case 0
  then have a: "a < MAXVA" "a = last_a" by (auto simp: word_less_nat_alt word_unat_eq_iff)
  then have "a \<in> pages (vpn a) (Suc 0)" by (simp add: pages_def)
  note d = can_unmapD [OF 0(4) this]
  from unmap_iteration [OF 0(1) a(1) refl d(1,2), where last_a = last_a] obtain s1 where s1:
    "uvmunmap_from pt a last_a do_free s = Done () s1"
    "pt_frees pt (if do_free then {PTE2PA (pte_of (mem s) pt a)} else {}) s s1"
    "\<And>vb. vb < MAXVA \<Longrightarrow> pte_of (mem s1) pt vb = (if vpn vb = vpn a then 0 else pte_of (mem s) pt vb)"
    using a(2) by auto
  have "frames (mem s1) pt (Suc (vpn a)) 0 = {}" by (auto simp: frames_def pages_def)
  then have "frames (mem s) pt (vpn a) (Suc 0) = {PTE2PA (pte_of (mem s) pt a)}"
    using can_unmap_rest(2) [OF 0(4) a(1) s1(2,3)] by simp
  moreover have "vpn a \<le> x \<and> x \<le> vpn a \<longleftrightarrow> x = vpn a" for x by auto
  ultimately show ?case using s1 by (cases do_free) simp_all
next
  case (Suc n)
  then have a: "a < MAXVA" "a \<noteq> last_a" by (auto simp: word_less_nat_alt)
  note up = next_page [of a n]
  have "a \<in> pages (vpn a) (Suc (Suc n))" using a by (simp add: pages_def)
  note d = can_unmapD [OF Suc.prems(4) this]
  from unmap_iteration [OF Suc.prems(1) a(1) refl d(1,2), where last_a = last_a] obtain s1 where s1:
    "uvmunmap_from pt a last_a do_free s = uvmunmap_from pt (a + PGSIZE) last_a do_free s1"
    "pt_frees pt (if do_free then {PTE2PA (pte_of (mem s) pt a)} else {}) s s1"
    "\<And>vb. vb < MAXVA \<Longrightarrow> pte_of (mem s1) pt vb = (if vpn vb = vpn a then 0 else pte_of (mem s) pt vb)"
    using a(2) by auto
  note rest = can_unmap_rest [OF Suc.prems(4) a(1) s1(2,3)]
  have "returns (uvmunmap_from pt (a + PGSIZE) last_a do_free s1) (\<lambda>_ s'.
     pt_frees pt (if do_free then frames (mem s1) pt (vpn (a + PGSIZE)) (Suc n) else {}) s1 s' \<and>
     (\<forall>vb < MAXVA. pte_of (mem s') pt vb = (if vpn (a + PGSIZE) \<le> vpn vb \<and> vpn vb \<le> vpn (a + PGSIZE) + n
        then 0 else pte_of (mem s1) pt vb)))"
    using Suc.prems s1(2) up rest(1) by (intro Suc.IH) (auto simp: pt_frees_def)
  then show ?case unfolding s1(1)
  proof (rule returns_weaken, goal_cases)
    case (1 u s')
    then have "pt_frees pt (if do_free then frames (mem s1) pt (vpn (a + PGSIZE)) (Suc n) else {}) s1 s'"
      by simp
    from pt_frees_trans [OF s1(2) this]
    have "pt_frees pt (if do_free then frames (mem s) pt (vpn a) (Suc (Suc n)) else {}) s s'"
      using rest(2) up Suc.prems(2) by (cases do_free) simp_all
    moreover have "pte_of (mem s') pt vb = (if vpn a \<le> vpn vb \<and> vpn vb \<le> vpn a + Suc n then 0
        else pte_of (mem s) pt vb)" if "vb < MAXVA" for vb
      using 1 s1(3) [OF that] that up Suc.prems(2) by simp
    ultimately show ?case by simp
  qed
qed

text \<open>
  C6: \<open>uvmunmap\<close> removes exactly the mappings of the pages that the range touches. Where each
  of them has a leaf entry (and, when frames are to be freed, an allocated frame of its own), it
  returns without a panic, those translations are gone and all others are unchanged, the frames
  are back in the pool if asked for, and only the table and those frames have been written.
\<close>

theorem uvmunmap_correct:
  assumes "pt_ok s pt" and "0 < sz" and "unat va + unat sz \<le> unat MAXVA"
    and "can_unmap s pt (vpn va) (Suc (vpn (va + sz - 1) - vpn va)) do_free"
  shows "\<exists>s'. uvmunmap pt va sz do_free s = Done () s'
     \<and> pt_frees pt (if do_free then frames (mem s) pt (vpn va) (Suc (vpn (va + sz - 1) - vpn va)) else {}) s s'
     \<and> (\<forall>vb < MAXVA. pte_of (mem s') pt vb =
          (if vpn va \<le> vpn vb \<and> vpn vb \<le> vpn (va + sz - 1) then 0 else pte_of (mem s) pt vb))"
proof -
  obtain n where n: "unat (PGROUNDDOWN va) + Suc n * 4096 \<le> unat MAXVA"
    "unat (PGROUNDDOWN (va + sz - 1)) = unat (PGROUNDDOWN va) + n * 4096" "vpn (va + sz - 1) = vpn va + n"
    using page_range [OF assms(2,3)] by blast
  have k: "Suc (vpn (va + sz - 1) - vpn va) = Suc n" using n(3) by simp
  from assms(4) have "can_unmap s pt (vpn (PGROUNDDOWN va)) (Suc n) do_free" unfolding k by simp
  from uvmunmap_from_spec [OF assms(1) n(1,2) this] show ?thesis
    unfolding uvmunmap_def returns_iff vpn_PGROUNDDOWN_eq n(3) [symmetric] k by simp
qed

text \<open>
  A concrete table at \<open>0x3000\<close> with nodes \<open>0x5000\<close> and \<open>0x6000\<close> that maps page 1 to the
  user frame \<open>0x7000\<close>; the pool is empty.
\<close>

definition example_user :: kmem_st where
  "example_user = \<lparr>kend = 0x1000,
     mem = (\<lambda>_ _. 0)(0x3000 := (\<lambda>_. 0)(0 := 0x1401), 0x5000 := (\<lambda>_. 0)(0 := 0x1801),
                     0x6000 := (\<lambda>_. 0)(1 := 0x1C17)),
     freelist = 0\<rparr>"

lemma example_user_ptes: "PTE2PA 0x1401 = 0x5000" "PTE2PA 0x1801 = 0x6000" "PTE2PA 0x1C17 = 0x7000"
  by (simp_all add: PTE2PA_def push_bit_eq_mult drop_bit_eq_div)

lemma example_user_node:
  assumes "length q \<le> 2"
  shows "node (mem example_user) 0x3000 q =
     (if q = [] then Some 0x3000 else if q = [0] then Some 0x5000 else if q = [0, 0] then Some 0x6000 else None)"
proof -
  consider "q = []" | i where "q = [i]" | i j where "q = [i, j]"
    using assms by (cases q; cases "tl q"; cases "tl (tl q)") auto
  then show ?thesis
    by cases (auto simp: node.simps example_user_def example_user_ptes PTE_V_def)
qed

lemma px_small: "unat va < 2097152 \<Longrightarrow> px 2 va = 0" "unat va < 2097152 \<Longrightarrow> px 1 va = 0"
  by (simp_all add: word_unat_eq_iff unat_px)

lemma example_user_ok:
  "pt_ok example_user 0x3000" "pt_nodes (mem example_user) 0x3000 = {0x3000, 0x5000, 0x6000}"
  "free_set example_user = {}" "vpn va = 1 \<Longrightarrow> pte_of (mem example_user) 0x3000 va = 0x1C17"
proof -
  note n = example_user_node
  show nodes: "pt_nodes (mem example_user) 0x3000 = {0x3000, 0x5000, 0x6000}"
  proof
    show "pt_nodes (mem example_user) 0x3000 \<subseteq> {0x3000, 0x5000, 0x6000}"
      by (auto simp: pt_nodes_def n split: if_splits)
    show "{0x3000, 0x5000, 0x6000} \<subseteq> pt_nodes (mem example_user) 0x3000"
      using pt_nodesI [of "mem example_user" "0x3000" "[]"] pt_nodesI [of "mem example_user" "0x3000" "[0]"]
        pt_nodesI [of "mem example_user" "0x3000" "[0, 0]"] by (simp add: n)
  qed
  have "free_pages example_user []" by (simp add: free_pages_def example_user_def)
  then have f: "kmem_wf example_user" "free_set example_user = {}" by (auto simp: kmem_wf_def free_set_eq)
  then show "free_set example_user = {}" by simp
  have "tree_ok (mem example_user) 0x3000" unfolding tree_ok_def by (auto simp: n split: if_splits)
  then show "pt_ok example_user 0x3000" using f by (simp add: pt_ok_def)
  assume "vpn va = 1"
  then have va: "unat va div 4096 = 1" by (simp add: vpn_def)
  then have "unat va div 4096 < 512" by simp
  then have "unat va < 2097152" by (simp add: div_less_iff_less_mult)
  moreover have "px 0 va = 1" using va by (simp add: word_unat_eq_iff unat_px)
  ultimately show "pte_of (mem example_user) 0x3000 va = 0x1C17"
    by (simp add: pte_of_def n px_small [unfolded One_nat_def]) (simp add: example_user_def)
qed

theorem uvmunmap_correct_witness:
  "\<exists>s'. uvmunmap 0x3000 0x1000 0x1000 True example_user = Done () s'
     \<and> free_set s' = {0x7000} \<and> pte_of (mem s') 0x3000 0x1000 = 0"
proof -
  have v: "vpn 0x1000 = 1" "vpn 0x1FFF = 1" "(0x1000 :: u64) < MAXVA"
    by (simp_all add: vpn_def MAXVA_val)
  have pg: "vb \<in> pages 1 1 \<Longrightarrow> vpn vb = 1" for vb by (auto simp: pages_def)
  moreover have "0x1000 \<in> pages 1 1" using v by (simp add: pages_def)
  ultimately have fr: "frames (mem example_user) 0x3000 1 1 = {0x7000}"
    unfolding frames_def by (auto simp: example_user_ok(4) example_user_ptes)
  have "owned example_user 0x3000 0x7000"
    by (simp add: owned_def example_user_ok managed_def PGSIZE_def PHYSTOP_val) (simp add: example_user_def)
  moreover have "leaf_pte 0x1C17" by (simp add: leaf_pte_def PTE_V_def PTE_FLAGS_def)
  ultimately have "can_unmap example_user 0x3000 1 1 True"
    unfolding can_unmap_def fr by (auto simp: example_user_ok(4) simp del: One_nat_def dest!: pg)
  then show ?thesis
    using uvmunmap_correct [OF example_user_ok(1), of "0x1000" "0x1000" True] v
    by (fastforce simp: unat_MAXVA fr [unfolded One_nat_def] pt_frees_def example_user_ok(3))
qed

section \<open>uvmcopy without memory\<close>

lemma uvmunmap_empty_range_panics:
  assumes "node (mem s) new [px 2 0, px 1 0] = None"
  shows "uvmunmap new 0 0 do_free s = Panic ''uvmunmap: walk''"
proof -
  have "PGROUNDDOWN 0 = 0" "(0 :: u64) < MAXVA" by (simp_all add: word_unat_eq_iff unat_PGROUNDDOWN MAXVA_val)
  then show ?thesis
    unfolding uvmunmap_def uvmunmap_from.simps [of new "PGROUNDDOWN 0"]
    using walk_lookup [of 0 new s] assms by simp
qed

text \<open>
  C10: when there is no page left for the first page of the child, \<open>uvmcopy\<close> does not return
  -1: its error path unmaps an empty range, which \<open>uvmunmap\<close> reads as a range that ends at
  the top of the address space, and the kernel panics on the missing page of the new table.
\<close>

theorem uvmcopy_out_of_memory_panics:
  assumes "0 < sz" and "kmem_wf s" and "free_set s = {}" and "pte_of (mem s) old 0 AND PTE_V \<noteq> 0"
    and "node (mem s) new [px 2 0, px 1 0] = None"
  shows "uvmcopy old new sz s = Panic ''uvmunmap: walk''"
proof -
  have M: "(0 :: u64) < MAXVA" by (simp add: MAXVA_val)
  obtain a where a: "node (mem s) old [px 2 0, px 1 0] = Some a" "mem s a (px 0 0) AND PTE_V \<noteq> 0"
    using assms(4) by (auto simp: pte_of_def split: option.splits)
  have "kalloc s = Done 0 s" using assms(2,3) by (rule kmem.alloc_fails)
  with a show ?thesis
    unfolding uvmcopy_def uvmcopy_from.simps [of old new sz 0] using assms(1)
    by (simp add: walk_lookup [OF M] Let_def uvmcopy_err_def uvmunmap_empty_range_panics [OF assms(5)])
qed

theorem uvmcopy_out_of_memory_panics_witness:
  "let s = example_user\<lparr>mem := (mem example_user)(0x6000 := (\<lambda>_. 0x1C17))\<rparr>
   in uvmcopy 0x3000 0x8000 0x1000 s = Panic ''uvmunmap: walk''"
proof -
  let ?s = "example_user\<lparr>mem := (mem example_user)(0x6000 := (\<lambda>_. 0x1C17))\<rparr>"
  have "free_pages ?s []" by (simp add: free_pages_def example_user_def)
  then have f: "kmem_wf ?s" "free_set ?s = {}" by (auto simp: kmem_wf_def free_set_eq)
  have px: "px 2 0 = 0" "px (Suc 0) 0 = 0" by (simp_all add: word_unat_eq_iff unat_px)
  have "pte_of (mem ?s) 0x3000 0 = 0x1C17" "node (mem ?s) 0x8000 [px 2 0, px 1 0] = None"
    by (simp_all add: pte_of_def px node.simps example_user_def example_user_ptes PTE_V_def)
  then show ?thesis
    using uvmcopy_out_of_memory_panics [OF _ f, of "0x1000" "0x3000" "0x8000"] by (simp add: PTE_V_def Let_def)
qed

end
