(* ===== verification/Xv6_Copy.thy ===== *)
theory Xv6_Copy
  imports Xv6_Pagetable
begin

text \<open>
  Copying between the kernel and user memory: \<open>copyout\<close>, \<open>copyin\<close> and \<open>copyinstr\<close> of
  \<open>kernel/vm.c\<close>, specified byte by byte through the page table.
\<close>

section \<open>Bytes of a page\<close>

lemma of_nat_word9_eq: "j < 512 \<Longrightarrow> k < 512 \<Longrightarrow> (of_nat j :: 9 word) = of_nat k \<longleftrightarrow> j = k"
  by (simp add: word_unat_eq_iff unat_of_nat)

lemma bit_0xFF: "bit (0xFF :: u64) m \<longleftrightarrow> m < 8"
proof -
  have "(0xFF :: u64) = mask 8" by (simp add: mask_eq_exp_minus_1)
  then show ?thesis by (simp only: bit_mask_iff) auto
qed

lemma byte_in_word:
  fixes w :: u64
  assumes "i < 8" and "k < 8"
  shows "(ucast (drop_bit (8 * k) ((w AND NOT (push_bit (8 * i) 0xFF)) OR push_bit (8 * i) (ucast b))) :: u8)
     = (if i = k then b else ucast (drop_bit (8 * k) w))"
proof (rule bit_word_eqI)
  fix n assume "n < LENGTH(8)"
  then have n: "n < 8" by simp
  have pos: "8 * i \<le> 8 * k + n \<and> 8 * k + n - 8 * i < 8 \<longleftrightarrow> i = k" using n by auto
  then have "bit (push_bit (8 * i) 0xFF :: u64) (8 * k + n) \<longleftrightarrow> i = k"
    using n assms by (auto simp: bit_push_bit_iff bit_0xFF simp del: bit_numeral_word_iff)
  moreover have "bit b (8 * k + n - 8 * i) \<Longrightarrow> 8 * k + n - 8 * i < 8" using bit_imp_le_length by fastforce
  then have "bit (push_bit (8 * i) (ucast b) :: u64) (8 * k + n) \<longleftrightarrow> i = k \<and> bit b n"
    using n assms pos by (auto simp: bit_push_bit_iff bit_ucast_iff)
  ultimately show "bit (ucast (drop_bit (8 * k) ((w AND NOT (push_bit (8 * i) 0xFF)) OR push_bit (8 * i) (ucast b))) :: u8) n
     = bit (if i = k then b else ucast (drop_bit (8 * k) w)) n"
    using n assms by (auto simp: bit_ucast_iff bit_drop_bit_eq bit_or_iff bit_and_iff bit_not_iff)
qed

lemma page_byte_set:
  assumes "j < 4096" and "k < 4096"
  shows "page_byte (set_page_byte pg j b) k = (if j = k then b else page_byte pg k)"
proof -
  have *: "j div 8 < 512" "k div 8 < 512" "j mod 8 < 8" "k mod 8 < 8"
    using assms by (auto simp: div_less_iff_less_mult)
  show ?thesis
  proof (cases "j div 8 = k div 8")
    case True
    moreover from True have "j = k \<longleftrightarrow> j mod 8 = k mod 8" by (metis div_mult_mod_eq)
    ultimately show ?thesis
      using byte_in_word [OF *(3,4), of "pg (of_nat (k div 8))" b]
      by (simp add: page_byte_def set_page_byte_def Let_def del: drop_bit_and drop_bit_or)
  next
    case False
    then show ?thesis using * by (auto simp: page_byte_def set_page_byte_def Let_def of_nat_word9_eq)
  qed
qed

lemma page_byte_write:
  assumes "j + length bs \<le> 4096" and "k < 4096"
  shows "page_byte (write_bytes pg j bs) k
     = (if j \<le> k \<and> k < j + length bs then bs ! (k - j) else page_byte pg k)"
  using assms
proof (induction bs arbitrary: pg j)
  case (Cons b bs)
  then have "page_byte (write_bytes (set_page_byte pg j b) (Suc j) bs) k
     = (if Suc j \<le> k \<and> k < Suc j + length bs then bs ! (k - Suc j) else if j = k then b else page_byte pg k)"
    by (simp add: page_byte_set)
  then show ?case by (auto simp: nth_Cons')
qed auto

lemma read_bytes_nth: "i < n \<Longrightarrow> read_bytes pg j n ! i = page_byte pg (j + i)"
  by (simp add: read_bytes_def)

lemma length_read_bytes [simp]: "length (read_bytes pg j n) = n"
  by (simp add: read_bytes_def)

section \<open>User addresses\<close>

text \<open>Where a user address lives: the frame and the offset in it.\<close>

definition phys :: "(u64 \<Rightarrow> page) \<Rightarrow> u64 \<Rightarrow> u64 \<Rightarrow> u64 \<times> nat" where
  "phys m pt va = (PTE2PA (pte_of m pt va), unat va mod 4096)"

definition byte_at :: "(u64 \<Rightarrow> page) \<Rightarrow> u64 \<times> nat \<Rightarrow> u8" where
  "byte_at m p = page_byte (m (fst p)) (snd p)"

definition user_ok :: "(u64 \<Rightarrow> page) \<Rightarrow> u64 \<Rightarrow> u64 \<Rightarrow> bool" where
  "user_ok m pt va \<longleftrightarrow> va < MAXVA \<and> pte_of m pt va AND PTE_V \<noteq> 0 \<and> pte_of m pt va AND PTE_U \<noteq> 0
     \<and> PTE2PA (pte_of m pt va) \<noteq> 0"

lemma PGROUNDDOWN_MAXVA: "PGROUNDDOWN va < MAXVA \<longleftrightarrow> va < MAXVA"
  by (simp add: vpn_below_MAXVA)

lemma walkaddr_page:
  "walkaddr pt (PGROUNDDOWN va) s = Done (if user_ok (mem s) pt va then PTE2PA (pte_of (mem s) pt va) else 0) s"
proof -
  have "pte_of (mem s) pt (PGROUNDDOWN va) = pte_of (mem s) pt va" if "va < MAXVA"
    using that by (intro pte_of_vpn) (auto simp: PGROUNDDOWN_MAXVA)
  then show ?thesis by (auto simp: walkaddr_eq Let_def user_ok_def PGROUNDDOWN_MAXVA)
qed

text \<open>The bytes of one page from \<open>va\<close> on, and the address of the next page.\<close>

abbreviation chunk :: "u64 \<Rightarrow> nat \<Rightarrow> nat" where
  "chunk va len \<equiv> min (unat (PGSIZE - (va - PGROUNDDOWN va))) len"

lemma page_room: "unat (PGSIZE - (va - PGROUNDDOWN va)) = 4096 - unat va mod 4096"
proof -
  have "va - PGROUNDDOWN va \<le> PGSIZE"
    by (simp add: word_le_nat_alt PGROUNDDOWN_offset less_imp_le)
  then show ?thesis by (simp add: unat_sub PGROUNDDOWN_offset)
qed

lemma same_page:
  assumes "va < MAXVA" and "i < chunk va len"
  shows "vpn (va + of_nat i) = vpn va" and "unat (va + of_nat i) mod 4096 = unat va mod 4096 + i"
    and "va + of_nat i < MAXVA"
proof -
  have i: "unat va mod 4096 + i < 4096" using assms(2) by (simp add: page_room less_diff_conv)
  then have "unat (of_nat i :: u64) = i" by (simp add: unat_of_nat)
  moreover have "unat va < 274877906944" using assms(1) by (simp add: word_less_nat_alt unat_MAXVA)
  ultimately have u: "unat (va + of_nat i) = unat va + i"
    using i by (subst unat_add_64) auto
  have m: "(unat va + i) mod 4096 = unat va mod 4096 + i" using i by (metis mod_add_left_eq mod_less)
  moreover have "(unat va + i) div 4096 = unat va div 4096"
    using div_mult_mod_eq [of "unat va + i" 4096] div_mult_mod_eq [of "unat va" 4096] m by linarith
  ultimately show "vpn (va + of_nat i) = vpn va" "unat (va + of_nat i) mod 4096 = unat va mod 4096 + i"
    by (simp_all add: vpn_def u)
  then show "va + of_nat i < MAXVA" using assms(1) by (simp add: vpn_below_MAXVA)
qed

lemma next_chunk:
  assumes "chunk va len < len"
  shows "PGROUNDDOWN va + PGSIZE + of_nat i = va + of_nat (chunk va len + i)"
proof -
  have "chunk va len = unat (PGSIZE - (va - PGROUNDDOWN va))" using assms by simp
  then have "(of_nat (chunk va len) :: u64) = PGSIZE - (va - PGROUNDDOWN va)" by simp
  then show ?thesis by (simp add: algebra_simps)
qed

lemma chunk_phys:
  assumes "va < MAXVA" and "i < chunk va len"
  shows "phys m pt (va + of_nat i) = (PTE2PA (pte_of m pt va), unat va mod 4096 + i)"
    and "user_ok m pt (va + of_nat i) \<longleftrightarrow> user_ok m pt va"
proof -
  note s = same_page [OF assms]
  have "pte_of m pt (va + of_nat i) = pte_of m pt va" using s(1,3) assms(1) by (intro pte_of_vpn)
  then show "phys m pt (va + of_nat i) = (PTE2PA (pte_of m pt va), unat va mod 4096 + i)"
    "user_ok m pt (va + of_nat i) \<longleftrightarrow> user_ok m pt va"
    using s(2,3) assms(1) by (simp_all add: phys_def user_ok_def)
qed

lemma all_split: "n \<le> len \<Longrightarrow> (\<forall>i < len. P i) \<longleftrightarrow> (\<forall>i < n. P i) \<and> (\<forall>i < len - n. P (n + i :: nat))"
  by (metis add_diff_inverse_nat le_add_diff_inverse linorder_not_less nat_add_left_cancel_less
      order_less_le_trans)

lemma map_split: "n \<le> len \<Longrightarrow> map f [0..<len] = map f [0..<n] @ map (\<lambda>i. f (n + i)) [0..<len - n]"
  by (rule nth_equalityI) (auto simp: nth_append)

lemma chunk_pos: "0 < len \<Longrightarrow> 0 < chunk va len"
  by (simp only: page_chunk_pos)

lemma user_ok_split:
  assumes "0 < len"
  shows "(\<forall>i < len. user_ok m pt (va + of_nat i)) \<longleftrightarrow>
     user_ok m pt va \<and> (\<forall>i < len - chunk va len. user_ok m pt (PGROUNDDOWN va + PGSIZE + of_nat i))"
proof (cases "va < MAXVA")
  case True
  have "chunk va len \<le> len" by simp
  moreover have "(\<forall>i < chunk va len. user_ok m pt (va + of_nat i)) \<longleftrightarrow> user_ok m pt va"
    using chunk_phys(2) [OF True, of _ len m pt] chunk_pos [OF assms, of va] by (metis (no_types))
  moreover have "PGROUNDDOWN va + PGSIZE + of_nat i = va + of_nat (chunk va len + i)"
    if "i < len - chunk va len" for i using that by (intro next_chunk) auto
  ultimately show ?thesis by (simp only: all_split [of "chunk va len" len]) metis
next
  case False
  then have "\<not> user_ok m pt va" by (simp add: user_ok_def)
  moreover have "\<not> user_ok m pt (va + of_nat 0)" using False by (simp add: user_ok_def)
  ultimately show ?thesis using assms by blast
qed

section \<open>copyin\<close>

definition user_bytes :: "(u64 \<Rightarrow> page) \<Rightarrow> u64 \<Rightarrow> u64 \<Rightarrow> nat \<Rightarrow> u8 list" where
  "user_bytes m pt va len = map (\<lambda>i. byte_at m (phys m pt (va + of_nat i))) [0..<len]"

lemma user_bytes_split:
  assumes "va < MAXVA"
  shows "user_bytes m pt va len = read_bytes (m (PTE2PA (pte_of m pt va))) (unat va mod 4096) (chunk va len)
     @ user_bytes m pt (PGROUNDDOWN va + PGSIZE) (len - chunk va len)"
proof -
  let ?f = "\<lambda>i. byte_at m (phys m pt (va + of_nat i))"
  have "map ?f [0..<chunk va len] = read_bytes (m (PTE2PA (pte_of m pt va))) (unat va mod 4096) (chunk va len)"
    using chunk_phys(1) [OF assms, of _ len m pt]
    by (intro nth_equalityI) (auto simp: read_bytes_nth byte_at_def simp del: min_less_iff_conj)
  moreover have "?f (chunk va len + i) = byte_at m (phys m pt (PGROUNDDOWN va + PGSIZE + of_nat i))"
    if "i < len - chunk va len" for i
  proof -
    have "chunk va len < len" using that by linarith
    then show ?thesis by (simp only: next_chunk)
  qed
  then have "map (\<lambda>i. ?f (chunk va len + i)) [0..<len - chunk va len]
      = user_bytes m pt (PGROUNDDOWN va + PGSIZE) (len - chunk va len)"
    unfolding user_bytes_def by (intro map_cong) auto
  ultimately show ?thesis
    unfolding user_bytes_def [of m pt va len] by (subst map_split [of "chunk va len"]) auto
qed

lemma copyin_spec:
  "\<exists>bs. copyin pt va len s =
       Done (if \<forall>i < len. user_ok (mem s) pt (va + of_nat i) then 0 else -1, bs) s
     \<and> ((\<forall>i < len. user_ok (mem s) pt (va + of_nat i)) \<longrightarrow> bs = user_bytes (mem s) pt va len)"
proof (induction len arbitrary: va rule: less_induct)
  case (less len)
  show ?case
  proof (cases "len = 0")
    case True
    then show ?thesis by (subst copyin.simps) (simp add: user_bytes_def)
  next
    case False
    then have pos: "0 < len" by simp
    show ?thesis
    proof (cases "user_ok (mem s) pt va")
      case True
      then have va: "va < MAXVA" "PTE2PA (pte_of (mem s) pt va) \<noteq> 0" by (simp_all add: user_ok_def)
      obtain n where n: "chunk va len = n" by simp
      have "len - n < len" using chunk_pos [OF pos, of va] pos by (simp only: n diff_less)
      from less.IH [OF this, of "PGROUNDDOWN va + PGSIZE"] show ?thesis
        using pos True va user_bytes_split [OF va(1), of "mem s" pt len]
        by (subst copyin.simps) (auto simp: walkaddr_page Let_def user_ok_split [OF pos] PGROUNDDOWN_offset n)
    next
      case False
      then show ?thesis
        using pos by (subst copyin.simps) (auto simp: walkaddr_page Let_def user_ok_split [OF pos])
    qed
  qed
qed

text \<open>
  C8: \<open>copyin\<close> returns 0 exactly when every address of the range is mapped for the user, and
  then it has copied the bytes at those addresses, in order; otherwise it returns -1. It
  changes no state.
\<close>

theorem copyin_correct:
  "\<exists>bs. copyin pt va len s =
       Done (if \<forall>i < len. user_ok (mem s) pt (va + of_nat i) then 0 else -1, bs) s
     \<and> ((\<forall>i < len. user_ok (mem s) pt (va + of_nat i)) \<longrightarrow> bs = user_bytes (mem s) pt va len)"
  by (rule copyin_spec)

theorem copyin_correct_witness:
  "copyin 0x3000 0x1FFE 2 example_user = Done (0, [0, 0]) example_user"
proof -
  have ok: "user_ok (mem example_user) 0x3000 va" if "vpn va = 1" for va
    using that by (simp add: user_ok_def vpn_below_MAXVA example_user_ok(4) example_user_ptes PTE_V_def PTE_U_def)
  have "vpn 0x1FFE = 1" "vpn 0x1FFF = 1" by (simp_all add: vpn_def)
  then have "\<forall>i < 2. user_ok (mem example_user) 0x3000 (0x1FFE + of_nat i)"
    by (auto simp: less_2_cases_iff intro: ok)
  then show ?thesis
    using copyin_correct [of "0x3000" "0x1FFE" 2 example_user] \<open>vpn 0x1FFE = 1\<close> \<open>vpn 0x1FFF = 1\<close>
    by (simp add: user_bytes_def upt_rec phys_def example_user_ok(4) example_user_ptes byte_at_def)
      (simp add: example_user_def page_byte_def)
qed

section \<open>copyout\<close>

lemma memmove_to_page_simps [simp]:
  "mem (memmove_to_page pa off bs s) = (mem s)(pa := write_bytes (mem s pa) off bs)"
  "freelist (memmove_to_page pa off bs s) = freelist s" "kend (memmove_to_page pa off bs s) = kend s"
  by (simp_all add: memmove_to_page_def)

text \<open>Writing one chunk: the bytes behind its addresses, and no others.\<close>

lemma write_chunk:
  assumes ok: "user_ok (mem s) pt va" and out: "PTE2PA (pte_of (mem s) pt va) \<notin> pt_nodes (mem s) pt"
    and n: "n = chunk va (length src)"
    and s1: "s1 = memmove_to_page (PTE2PA (pte_of (mem s) pt va)) (unat va mod 4096) (take n src) s"
  shows "pt_nodes (mem s1) pt = pt_nodes (mem s) pt" and "pte_of (mem s1) pt = pte_of (mem s) pt"
    and "i < n \<Longrightarrow> byte_at (mem s1) (phys (mem s) pt (va + of_nat i)) = src ! i"
    and "snd p < 4096 \<Longrightarrow> p \<notin> (\<lambda>i. phys (mem s) pt (va + of_nat i)) ` {..<n} \<Longrightarrow>
       byte_at (mem s1) p = byte_at (mem s) p"
proof -
  let ?pa = "PTE2PA (pte_of (mem s) pt va)" and ?off = "unat va mod 4096"
  have same: "mem s1 a = mem s a" if "a \<in> pt_nodes (mem s) pt" for a
    using that out by (auto simp: s1)
  from pt_nodes_cong [of "mem s" pt "mem s1", OF this] show "pt_nodes (mem s1) pt = pt_nodes (mem s) pt"
    "pte_of (mem s1) pt = pte_of (mem s) pt" by auto
  have va: "va < MAXVA" using ok by (simp add: user_ok_def)
  have len: "?off + length (take n src) \<le> 4096" "length (take n src) = n" by (auto simp: n page_room)
  have b: "byte_at (mem s1) q = (if fst q = ?pa \<and> ?off \<le> snd q \<and> snd q < ?off + n
      then src ! (snd q - ?off) else byte_at (mem s) q)" if "snd q < 4096" for q
    using that len by (auto simp: byte_at_def s1 page_byte_write)
  have p: "phys (mem s) pt (va + of_nat i) = (?pa, ?off + i)" if "i < n" for i
    using that unfolding n by (rule chunk_phys(1) [OF va])
  show "byte_at (mem s1) (phys (mem s) pt (va + of_nat i)) = src ! i" if "i < n"
    using that len(1,2) by (simp add: p b)
  show "byte_at (mem s1) p = byte_at (mem s) p"
    if "snd p < 4096" "p \<notin> (\<lambda>i. phys (mem s) pt (va + of_nat i)) ` {..<n}"
  proof -
    have "\<not> (fst p = ?pa \<and> ?off \<le> snd p \<and> snd p < ?off + n)"
    proof
      assume a: "fst p = ?pa \<and> ?off \<le> snd p \<and> snd p < ?off + n"
      then have "snd p - ?off < n" "p = (?pa, ?off + (snd p - ?off))" by (auto simp: prod_eq_iff)
      with p [of "snd p - ?off"] that(2) show False by (metis (no_types, lifting) imageI lessThan_iff)
    qed
    with b [OF that(1)] show ?thesis by (simp only: if_False)
  qed
qed

text \<open>
  The result of a copy to the physical bytes \<open>P\<close>: only memory has changed, the table is the
  same, and no byte has changed outside \<open>P\<close>.
\<close>

definition copied_frame :: "u64 \<Rightarrow> (u64 \<times> nat) set \<Rightarrow> 'z kmem_st_scheme \<Rightarrow> 'z kmem_st_scheme \<Rightarrow> bool" where
  "copied_frame pt P s s' \<longleftrightarrow> (\<exists>m. s' = s\<lparr>mem := m\<rparr>) \<and> pt_nodes (mem s') pt = pt_nodes (mem s) pt
     \<and> pte_of (mem s') pt = pte_of (mem s) pt
     \<and> (\<forall>p. snd p < 4096 \<longrightarrow> p \<notin> P \<longrightarrow> byte_at (mem s') p = byte_at (mem s) p)"

lemma copied_frame_refl: "copied_frame pt {} s s"
  unfolding copied_frame_def by (auto intro: exI [of _ "mem s"])

lemma copied_frame_trans:
  "copied_frame pt P s s1 \<Longrightarrow> copied_frame pt Q s1 s' \<Longrightarrow> copied_frame pt (P \<union> Q) s s'"
  unfolding copied_frame_def by auto

lemma phys_user_ok_cong:
  assumes "pte_of m' pt = pte_of m pt"
  shows "phys m' pt = phys m pt" and "user_ok m' pt = user_ok m pt"
  using assms by (simp_all add: phys_def user_ok_def fun_eq_iff)

lemma snd_phys_less: "snd (phys m pt va) < 4096"
  by (simp add: phys_def)

lemma copyout_stops:
  assumes "src = [] \<or> \<not> user_ok (mem s) pt va" and "\<And>i. i < length src \<Longrightarrow> A i = va + of_nat i"
  shows "copyout pt va src s = Done (if \<forall>i < length src. user_ok (mem s) pt (A i) then 0 else -1) s"
proof (cases "src = []")
  case False
  then have "A 0 = va" using assms(2) [of 0] by simp
  with False assms(1) have "\<not> (\<forall>i < length src. user_ok (mem s) pt (A i))" by (metis length_greater_0_conv)
  with False assms(1) show ?thesis by (subst copyout.simps) (simp add: walkaddr_page Let_def)
qed (simp add: copyout.simps)

lemma copyout_continues:
  assumes "src \<noteq> []" and "user_ok (mem s) pt va" and "n = chunk va (length src)"
  shows "copyout pt va src s = copyout pt (PGROUNDDOWN va + PGSIZE) (drop n src)
     (memmove_to_page (PTE2PA (pte_of (mem s) pt va)) (unat va mod 4096) (take n src) s)"
  using assms by (subst copyout.simps) (auto simp: walkaddr_page Let_def user_ok_def PGROUNDDOWN_offset)

lemma image_split: "n \<le> len \<Longrightarrow> f ` {..<len} = f ` {..<n} \<union> (\<lambda>i. f (n + i)) ` {..<len - n :: nat}"
proof -
  assume n: "n \<le> len"
  have "(\<lambda>i. n + i) ` {..<len - n} = {n..<len}"
    using n by (simp add: lessThan_atLeast0 image_add_atLeastLessThan)
  then have "(\<lambda>i. f (n + i)) ` {..<len - n} = f ` {n..<len}"
    by (metis (no_types) image_image)
  moreover have "{..<len} = {..<n} \<union> {n..<len}" using n by auto
  ultimately show ?thesis by (simp add: image_Un)
qed

text \<open>Putting the first chunk and the rest of a copy together.\<close>

lemma copied_bytes_split:
  assumes "inj_on P {..<len}" and "n \<le> len" and "length src = len"
    and first: "\<And>i. i < n \<Longrightarrow> byte_at m1 (P i) = src ! i"
    and rest: "\<And>i. i < len - n \<Longrightarrow> byte_at m' (P (n + i)) = drop n src ! i"
    and frame: "\<And>p. snd p < 4096 \<Longrightarrow> p \<notin> (\<lambda>i. P (n + i)) ` {..<len - n} \<Longrightarrow> byte_at m' p = byte_at m1 p"
    and small: "\<And>i. snd (P i) < 4096" and i: "i < len"
  shows "byte_at m' (P i) = src ! i"
proof (cases "i < n")
  case True
  have "P i \<noteq> P (n + j)" if "j < len - n" for j
  proof -
    have "i \<in> {..<len}" "n + j \<in> {..<len}" "i \<noteq> n + j" using True that i by auto
    then show ?thesis using assms(1) by (meson inj_onD)
  qed
  then have "P i \<notin> (\<lambda>i. P (n + i)) ` {..<len - n}" by auto
  then show ?thesis using frame [OF small] first [OF True] by simp
next
  case False
  then show ?thesis using rest [of "i - n"] i assms(2,3) by simp
qed

lemma inj_on_shift: "inj_on f {..<len} \<Longrightarrow> n \<le> len \<Longrightarrow> inj_on (\<lambda>i. f (n + i)) {..<len - n :: nat}"
  by (rule inj_onI) (auto dest!: inj_onD)

text \<open>\<open>A\<close> lists the addresses of the range.\<close>

lemma copyout_spec:
  assumes "\<And>i. i < length src \<Longrightarrow> A i = va + of_nat i"
    and "\<And>i. i < length src \<Longrightarrow> user_ok (mem s) pt (A i) \<Longrightarrow> fst (phys (mem s) pt (A i)) \<notin> pt_nodes (mem s) pt"
  shows "\<exists>s'. copyout pt va src s = Done (if \<forall>i < length src. user_ok (mem s) pt (A i) then 0 else -1) s'
    \<and> copied_frame pt ((\<lambda>i. phys (mem s) pt (A i)) ` {..<length src}) s s'
    \<and> ((\<forall>i < length src. user_ok (mem s) pt (A i)) \<longrightarrow> inj_on (\<lambda>i. phys (mem s) pt (A i)) {..<length src} \<longrightarrow>
        (\<forall>i < length src. byte_at (mem s') (phys (mem s) pt (A i)) = src ! i))"
  using assms
proof (induction "length src" arbitrary: va src s A rule: less_induct)
  case less
  show ?case
  proof (cases "src = [] \<or> \<not> user_ok (mem s) pt va")
    case True
    moreover have "A 0 = va" if "src \<noteq> []" using less.prems(1) [of 0] that by simp
    ultimately have "src = [] \<or> \<not> (\<forall>i < length src. user_ok (mem s) pt (A i))"
      by (metis length_greater_0_conv)
    then show ?thesis
      using copyout_stops [OF True less.prems(1)] by (auto simp: copied_frame_def intro: exI [of _ "mem s"])
  next
    case False
    then have ne: "src \<noteq> []" and ok: "user_ok (mem s) pt va" by auto
    obtain n where n: "n = chunk va (length src)" by simp
    have n_pos: "0 < n" and n_le: "n \<le> length src"
      using chunk_pos [of "length src" va] ne by (simp_all add: n)
    let ?s1 = "memmove_to_page (PTE2PA (pte_of (mem s) pt va)) (unat va mod 4096) (take n src) s"
    let ?P = "\<lambda>i. phys (mem s) pt (A i)"
    have A0: "A 0 = va" using less.prems(1) [of 0] ne by simp
    then have out: "PTE2PA (pte_of (mem s) pt va) \<notin> pt_nodes (mem s) pt"
      using less.prems(2) [of 0] ne ok by (simp add: phys_def)
    note w = write_chunk [OF ok out n refl]
    note same = phys_user_ok_cong [OF w(2)]
    have lt: "length (drop n src) < length src" using n_pos ne by simp
    have "A (n + i) = PGROUNDDOWN va + PGSIZE + of_nat i" if "i < length (drop n src)" for i
      using that less.prems(1) [of "n + i"] next_chunk [of va "length src" i] unfolding n by auto
    moreover have "fst (phys (mem ?s1) pt (A (n + i))) \<notin> pt_nodes (mem ?s1) pt"
      if "i < length (drop n src)" "user_ok (mem ?s1) pt (A (n + i))" for i
      using that less.prems(2) [of "n + i"] unfolding w(1) same by auto
    ultimately have "\<exists>s'. copyout pt (PGROUNDDOWN va + PGSIZE) (drop n src) ?s1 =
        Done (if \<forall>i < length (drop n src). user_ok (mem ?s1) pt (A (n + i)) then 0 else -1) s'
      \<and> copied_frame pt ((\<lambda>i. phys (mem ?s1) pt (A (n + i))) ` {..<length (drop n src)}) ?s1 s'
      \<and> ((\<forall>i < length (drop n src). user_ok (mem ?s1) pt (A (n + i))) \<longrightarrow>
          inj_on (\<lambda>i. phys (mem ?s1) pt (A (n + i))) {..<length (drop n src)} \<longrightarrow>
          (\<forall>i < length (drop n src). byte_at (mem s') (phys (mem ?s1) pt (A (n + i))) = drop n src ! i))"
      by (rule less.hyps [OF lt])
    then obtain s' where s': "copyout pt va src s =
        Done (if \<forall>i < length src - n. user_ok (mem s) pt (A (n + i)) then 0 else -1) s'"
      and f': "copied_frame pt ((\<lambda>i. ?P (n + i)) ` {..<length src - n}) ?s1 s'"
      and b': "(\<forall>i < length src - n. user_ok (mem s) pt (A (n + i))) \<Longrightarrow>
          inj_on (\<lambda>i. ?P (n + i)) {..<length src - n} \<Longrightarrow>
          (\<forall>i < length src - n. byte_at (mem s') (?P (n + i)) = drop n src ! i)"
      unfolding copyout_continues [OF ne ok n] same length_drop by blast
    have A: "A i = va + of_nat i" if "i < n" for i using less.prems(1) [of i] that n_le by simp
    have "\<forall>i < n. user_ok (mem s) pt (A i)"
      using chunk_phys(2) [of va _ "length src" "mem s" pt] ok A by (auto simp: n user_ok_def)
    then have all: "(\<forall>i < length src. user_ok (mem s) pt (A i)) \<longleftrightarrow>
        (\<forall>i < length src - n. user_ok (mem s) pt (A (n + i)))"
      by (simp only: all_split [OF n_le]) blast
    have "?P ` {..<n} = (\<lambda>i. phys (mem s) pt (va + of_nat i)) ` {..<n}" using A by auto
    then have "copied_frame pt (?P ` {..<n}) s ?s1"
      using w(1,2,4) by (auto simp: copied_frame_def memmove_to_page_def)
    from copied_frame_trans [OF this f'] have f: "copied_frame pt (?P ` {..<length src}) s s'"
      by (simp only: image_split [OF n_le, of ?P])
    have "byte_at (mem s') (?P i) = src ! i" if "\<forall>i < length src. user_ok (mem s) pt (A i)"
      "inj_on ?P {..<length src}" "i < length src" for i
    proof (rule copied_bytes_split [OF that(2) n_le refl, of "mem ?s1" "mem s'"], goal_cases)
      case (1 k)
      show ?case using w(3) [OF 1] by (simp only: A [OF 1])
    next
      case (2 k)
      then show ?case using b' [OF that(1) [unfolded all] inj_on_shift [OF that(2) n_le]] by blast
    next
      case (3 q)
      then show ?case using f' unfolding copied_frame_def by blast
    qed (simp_all only: snd_phys_less that(3))
    with s' f all show ?thesis by auto
  qed
qed

text \<open>
  C7: what \<open>copyout\<close> writes, \<open>copyin\<close> reads back. For a range of user addresses whose frames
  are not page-table pages and whose bytes are distinct, \<open>copyout\<close> returns 0, a \<open>copyin\<close> of
  the range from the state it leaves returns 0 and exactly the bytes written, and no byte of
  memory outside the range, no translation and no other part of the state has changed.
\<close>

theorem copyout_copyin_roundtrip:
  assumes "\<forall>i < length src. user_ok (mem s) pt (va + of_nat i)
      \<and> fst (phys (mem s) pt (va + of_nat i)) \<notin> pt_nodes (mem s) pt"
    and "inj_on (\<lambda>i. phys (mem s) pt (va + of_nat i)) {..<length src}"
  shows "\<exists>s'. copyout pt va src s = Done 0 s' \<and> copyin pt va (length src) s' = Done (0, src) s'
     \<and> copied_frame pt ((\<lambda>i. phys (mem s) pt (va + of_nat i)) ` {..<length src}) s s'"
proof -
  obtain s' where s': "copyout pt va src s = Done 0 s'"
    "copied_frame pt ((\<lambda>i. phys (mem s) pt (va + of_nat i)) ` {..<length src}) s s'"
    "\<forall>i < length src. byte_at (mem s') (phys (mem s) pt (va + of_nat i)) = src ! i"
    using copyout_spec [of src "\<lambda>i. va + of_nat i" va s pt] assms by auto
  then have same: "phys (mem s') pt = phys (mem s) pt" "user_ok (mem s') pt = user_ok (mem s) pt"
    by (auto simp only: copied_frame_def dest: phys_user_ok_cong)
  have "user_bytes (mem s') pt va (length src) = src"
    using s'(3) by (intro nth_equalityI) (auto simp: user_bytes_def same)
  with copyin_spec [of pt va "length src" s'] assms(1) s' show ?thesis by (auto simp: same)
qed

text \<open>
  Outside the tables: a copy that finds an unmapped page returns -1; the bytes before that page
  may have been written, nothing else.
\<close>

lemma copyout_fails:
  assumes "\<exists>i < length src. \<not> user_ok (mem s) pt (va + of_nat i)"
    and "\<forall>i < length src. user_ok (mem s) pt (va + of_nat i) \<longrightarrow>
      fst (phys (mem s) pt (va + of_nat i)) \<notin> pt_nodes (mem s) pt"
  shows "\<exists>s'. copyout pt va src s = Done (-1) s'
     \<and> copied_frame pt ((\<lambda>i. phys (mem s) pt (va + of_nat i)) ` {..<length src}) s s'"
  using copyout_spec [of src "\<lambda>i. va + of_nat i" va s pt] assms by (auto split: if_splits)

theorem copyout_copyin_roundtrip_witness:
  "\<exists>s'. copyout 0x3000 0x1008 [1, 2] example_user = Done 0 s' \<and> copyin 0x3000 0x1008 2 s' = Done (0, [1, 2]) s'"
proof -
  have v: "vpn 0x1008 = 1" "vpn 0x1009 = 1" by (simp_all add: vpn_def)
  have ok: "user_ok (mem example_user) 0x3000 va \<and> phys (mem example_user) 0x3000 va = (0x7000, unat va mod 4096)"
    if "vpn va = 1" for va
    using that by (simp add: user_ok_def phys_def vpn_below_MAXVA example_user_ok(4) example_user_ptes PTE_V_def PTE_U_def)
  have "inj_on (\<lambda>i. phys (mem example_user) 0x3000 (0x1008 + of_nat i)) {..<length [1, 2 :: u8]}"
    using ok [OF v(1)] ok [OF v(2)] by (auto simp: inj_on_def less_2_cases_iff numeral_2_eq_2 [symmetric])
  moreover have "\<forall>i < length [1, 2 :: u8]. user_ok (mem example_user) 0x3000 (0x1008 + of_nat i)
      \<and> fst (phys (mem example_user) 0x3000 (0x1008 + of_nat i)) \<notin> pt_nodes (mem example_user) 0x3000"
    using ok [OF v(1)] ok [OF v(2)] by (auto simp: less_2_cases_iff numeral_2_eq_2 [symmetric] example_user_ok(2))
  ultimately show ?thesis
    using copyout_copyin_roundtrip [of "[1, 2]" example_user "0x3000" "0x1008"]
    by (auto simp: numeral_2_eq_2 [symmetric])
qed

end
