(* ===== verification/Xv6_Vmframe.thy ===== *)
theory Xv6_Vmframe
  imports Xv6_Vm
begin

text \<open>
  The frame of \<open>kernel/kalloc.c\<close> and \<open>kernel/vm.c\<close>: their operations change physical memory and
  the free list and nothing else of the kernel state, whatever record extends it.
\<close>

definition mem_only :: "'z kmem_st_scheme \<Rightarrow> 'z kmem_st_scheme \<Rightarrow> bool" where
  "mem_only s0 s \<longleftrightarrow> s\<lparr>mem := \<lambda>_ _. 0, freelist := 0\<rparr> = s0\<lparr>mem := \<lambda>_ _. 0, freelist := 0\<rparr>"

lemma mem_only_refl [simp]: "mem_only s s"
  by (simp add: mem_only_def)

lemma mem_only_trans: "mem_only s0 s \<Longrightarrow> mem_only s s' \<Longrightarrow> mem_only s0 s'"
  by (auto simp: mem_only_def)

lemma mem_only_memset [mem_only_intros]: "mem_only s0 s \<Longrightarrow> mem_only s0 (memset_page pa c s)"
  by (auto simp: mem_only_def memset_page_def)

lemma mem_only_store [mem_only_intros]: "mem_only s0 s \<Longrightarrow> mem_only s0 (store_pte p v s)"
  by (auto simp: mem_only_def store_pte_def)

lemma mem_only_upd [mem_only_intros]: "mem_only s0 s \<Longrightarrow> mem_only s0 (s\<lparr>mem := m\<rparr>)"
  by (auto simp: mem_only_def)

lemma mem_only_memmove [mem_only_intros]: "mem_only s0 s \<Longrightarrow> mem_only s0 (memmove_to_page pa off bs s)"
  by (auto simp: mem_only_def memmove_to_page_def)

lemma mem_only_kalloc [mem_only_intros]: "mem_only s0 s \<Longrightarrow> keeps (mem_only s0) (kalloc s)"
  by (auto simp: mem_only_def kalloc_def memset_page_def Let_def)

lemma mem_only_kfree [mem_only_intros]: "mem_only s0 s \<Longrightarrow> keeps (mem_only s0) (kfree pa s)"
  by (auto simp: mem_only_def kfree_def memset_page_def Let_def)

lemma mem_only_walk_from [mem_only_intros]:
  "mem_only s0 s \<Longrightarrow> keeps (mem_only s0) (walk_from l pt va alloc s)"
proof (induction l arbitrary: pt s)
  case (Suc l)
  show ?case
    unfolding walk_from.simps Let_def
    by (intro keeps_if keeps_bnd Suc.IH mem_only_intros Suc.prems; simp add: Suc.prems)
qed simp

lemma mem_only_walk [mem_only_intros]: "mem_only s0 s \<Longrightarrow> keeps (mem_only s0) (walk pt va alloc s)"
  by (simp add: walk_def mem_only_walk_from)

lemma mem_only_walkaddr [mem_only_intros]: "mem_only s0 s \<Longrightarrow> keeps (mem_only s0) (walkaddr pt va s)"
  unfolding walkaddr_def by (auto intro!: keeps_bnd keeps_option mem_only_intros)

lemma mem_only_mappages_from [mem_only_intros]:
  "mem_only s0 s \<Longrightarrow> keeps (mem_only s0) (mappages_from pt a last_a pa perm s)"
proof (induction pt a last_a pa perm s rule: mappages_from.induct)
  case (1 pt a last_a pa perm s)
  show ?case
    unfolding mappages_from.simps [of pt a]
    by (auto simp: Let_def intro!: keeps_bnd keeps_option keeps_if mem_only_intros 1)
qed

lemma mem_only_mappages [mem_only_intros]: "mem_only s0 s \<Longrightarrow> keeps (mem_only s0) (mappages pt va sz pa perm s)"
  by (simp add: mappages_def mem_only_mappages_from)

lemma mem_only_uvmunmap_from [mem_only_intros]:
  "mem_only s0 s \<Longrightarrow> keeps (mem_only s0) (uvmunmap_from pt a last_a do_free s)"
proof (induction pt a last_a do_free s rule: uvmunmap_from.induct)
  case (1 pt a last_a do_free s)
  show ?case
    unfolding uvmunmap_from.simps [of pt a]
    by (auto simp: Let_def intro!: keeps_bnd keeps_option keeps_if mem_only_intros 1)
qed

lemma mem_only_uvmunmap [mem_only_intros]: "mem_only s0 s \<Longrightarrow> keeps (mem_only s0) (uvmunmap pt va sz do_free s)"
  by (simp add: uvmunmap_def mem_only_uvmunmap_from)

lemma mem_only_uvmcreate [mem_only_intros]: "mem_only s0 s \<Longrightarrow> keeps (mem_only s0) (uvmcreate s)"
  unfolding uvmcreate_def by (auto intro!: keeps_bnd keeps_if mem_only_intros)

lemma mem_only_uvmdealloc [mem_only_intros]: "mem_only s0 s \<Longrightarrow> keeps (mem_only s0) (uvmdealloc pt oldsz newsz s)"
  unfolding uvmdealloc_def by (auto simp: Let_def intro!: keeps_bnd keeps_if mem_only_intros)

lemma mem_only_uvmalloc_from [mem_only_intros]:
  "mem_only s0 s \<Longrightarrow> keeps (mem_only s0) (uvmalloc_from pt oldsz newsz a s)"
proof (induction pt oldsz newsz a s rule: uvmalloc_from.induct)
  case (1 pt oldsz newsz a s)
  show ?case
    unfolding uvmalloc_from.simps [of pt oldsz newsz a]
    by (auto simp: Let_def intro!: keeps_bnd keeps_if mem_only_intros 1)
qed

lemma mem_only_uvmalloc [mem_only_intros]: "mem_only s0 s \<Longrightarrow> keeps (mem_only s0) (uvmalloc pt oldsz newsz s)"
  by (simp add: uvmalloc_def mem_only_uvmalloc_from)

lemma mem_only_freewalk_fuel [mem_only_intros]:
  "mem_only s0 s \<Longrightarrow> keeps (mem_only s0) (freewalk_fuel d pt s)"
proof (induction d arbitrary: pt s)
  case (Suc d)
  then show ?case
    unfolding freewalk_fuel.simps
    by (intro keeps_bnd keeps_each mem_only_kfree) (auto simp: Let_def intro!: keeps_bnd mem_only_store)
qed simp

lemma mem_only_uvmfree [mem_only_intros]: "mem_only s0 s \<Longrightarrow> keeps (mem_only s0) (uvmfree pt sz s)"
  unfolding uvmfree_def freewalk_def by (intro keeps_bnd mem_only_intros)

lemma mem_only_uvmcopy_from [mem_only_intros]:
  "mem_only s0 s \<Longrightarrow> keeps (mem_only s0) (uvmcopy_from old new sz i s)"
proof (induction old new sz i s rule: uvmcopy_from.induct)
  case (1 old new sz i s)
  show ?case
    unfolding uvmcopy_from.simps [of old new sz i] uvmcopy_err_def
    by (auto simp: Let_def intro!: keeps_bnd keeps_option keeps_if mem_only_intros 1)
qed

lemma mem_only_uvmcopy [mem_only_intros]: "mem_only s0 s \<Longrightarrow> keeps (mem_only s0) (uvmcopy old new sz s)"
  by (simp add: uvmcopy_def mem_only_uvmcopy_from)

lemma mem_only_uvmclear [mem_only_intros]: "mem_only s0 s \<Longrightarrow> keeps (mem_only s0) (uvmclear pt va s)"
  unfolding uvmclear_def by (auto intro!: keeps_bnd keeps_option mem_only_intros)

lemma mem_only_uvminit [mem_only_intros]: "mem_only s0 s \<Longrightarrow> keeps (mem_only s0) (uvminit pt src s)"
  unfolding uvminit_def by (auto intro!: keeps_bnd keeps_if mem_only_intros)

lemma mem_only_copyout [mem_only_intros]: "mem_only s0 s \<Longrightarrow> keeps (mem_only s0) (copyout pt va src s)"
proof (induction pt va src s rule: copyout.induct)
  case (1 pt va src s)
  show ?case
    unfolding copyout.simps [of pt va src]
    by (auto simp: Let_def intro!: keeps_bnd keeps_if mem_only_intros 1)
qed

lemma mem_only_copyin [mem_only_intros]: "mem_only s0 s \<Longrightarrow> keeps (mem_only s0) (copyin pt va len s)"
proof (induction pt va len s rule: copyin.induct)
  case (1 pt va len s)
  show ?case
    unfolding copyin.simps [of pt va len]
    by (auto simp: Let_def split: prod.splits intro!: keeps_bnd keeps_if mem_only_intros 1)
qed

lemma mem_only_copyinstr [mem_only_intros]: "mem_only s0 s \<Longrightarrow> keeps (mem_only s0) (copyinstr pt va n s)"
proof (induction pt va n s rule: copyinstr.induct)
  case (1 pt va n s)
  show ?case
    unfolding copyinstr.simps [of pt va n]
    by (auto simp: Let_def split: prod.splits intro!: keeps_bnd keeps_if mem_only_intros 1)
qed

text \<open>Fields the memory code does not write.\<close>

lemma mem_only_fields:
  "mem_only s0 s \<Longrightarrow> kend s = kend s0"
  unfolding mem_only_def by (drule arg_cong [where f = kend]) simp

lemma mem_only_vm_fields:
  fixes s s0 :: "'z vm_st_scheme"
  assumes "mem_only s0 s"
  shows "kernel_pagetable s = kernel_pagetable s0" "etext s = etext s0" "trampoline s = trampoline s0" "satp s = satp s0"
  using assms [unfolded mem_only_def, THEN arg_cong, of kernel_pagetable]
    assms [unfolded mem_only_def, THEN arg_cong, of etext]
    assms [unfolded mem_only_def, THEN arg_cong, of trampoline]
    assms [unfolded mem_only_def, THEN arg_cong, of satp]
  by simp_all

end
