(* ===== verification/Xv6_Proc.thy ===== *)
theory Xv6_Proc
  imports Xv6_Copy Xv6_String Xv6_Vmframe
begin

text \<open>
  The process table of \<open>kernel/proc.c\<close> (\<open>struct proc\<close> is in \<open>kernel/proc.h\<close>): allocation and
  freeing of processes, memory growth, sleep and wakeup, kill, wait, the scheduler's choice.
  \<open>fork\<close>, \<open>exit\<close> and \<open>userinit\<close> also use the file system and are in \<open>Xv6_Fork\<close>. Processes are
  table indices; each critical section under a process lock is one step.
\<close>

section \<open>State\<close>

definition NPROC :: nat where "NPROC = 10"
definition NOFILE :: nat where "NOFILE = 16"

datatype procstate = UNUSED | SLEEPING | RUNNABLE | RUNNING | ZOMBIE

text \<open>The saved registers of a kernel thread; \<open>allocproc\<close> clears the callee-saved ones.\<close>

record kcontext =
  ctx_ra :: u64
  ctx_sp :: u64
  ctx_s :: "u64 list"

text \<open>
  \<open>struct proc\<close>. \<open>p_tf\<close> is the physical address of the trapframe page, whose fields are words
  of that page; open files and the current directory are indices into the file table and the
  inode cache.
\<close>

record proc =
  p_state :: procstate
  p_parent :: "nat option"
  p_chan :: "chan option"
  p_killed :: int
  p_xstate :: int
  p_pid :: int
  p_kstack :: u64
  p_sz :: u64
  p_pagetable :: u64
  p_tf :: u64
  p_context :: kcontext
  p_ofile :: "nat \<Rightarrow> nat option"
  p_cwd :: "nat option"
  p_name :: cptr

text \<open>
  The table, the next process id, \<open>initproc\<close>, the process running on this CPU
  (\<open>mycpu()->proc\<close>) and the address of \<open>forkret\<close>.
\<close>

record proc_st = vm_st +
  procs :: "nat \<Rightarrow> proc"
  nextpid :: int
  initproc :: "nat option"
  cur :: "nat option"
  forkret_addr :: u64

text \<open>Word indices of the trapframe fields.\<close>

abbreviation TF_epc :: "9 word" where "TF_epc \<equiv> 3"
abbreviation TF_sp :: "9 word" where "TF_sp \<equiv> 6"
abbreviation TF_a0 :: "9 word" where "TF_a0 \<equiv> 14"
abbreviation TF_a1 :: "9 word" where "TF_a1 \<equiv> 15"
abbreviation TF_a7 :: "9 word" where "TF_a7 \<equiv> 21"

definition upd_proc :: "nat \<Rightarrow> (proc \<Rightarrow> proc) \<Rightarrow> 'z proc_st_scheme \<Rightarrow> 'z proc_st_scheme" where
  "upd_proc i f s = s\<lparr>procs := (procs s)(i := f (procs s i))\<rparr>"

text \<open>\<open>struct proc *p = myproc()\<close> where the code goes on to dereference \<open>p\<close>.\<close>

definition with_proc :: "('z proc_st_scheme \<Rightarrow> nat \<Rightarrow> ('a, 'z proc_st_scheme) outcome)
    \<Rightarrow> 'z proc_st_scheme \<Rightarrow> ('a, 'z proc_st_scheme) outcome" where
  "with_proc f s = (case cur s of None \<Rightarrow> Undef ''no current process'' | Some p \<Rightarrow> f s p)"

section \<open>Operations\<close>

definition myproc :: "'z proc_st_scheme \<Rightarrow> nat option" where
  "myproc s = cur s"

definition procinit :: "'z proc_st_scheme \<Rightarrow> (unit, 'z proc_st_scheme) outcome" where
  "procinit s =
     bnd (each (\<lambda>i s.
       bnd (kalloc s) (\<lambda>pa s.
         if pa = 0 then Panic ''kalloc''
         else let va = KSTACK (of_nat i)
              in bnd (kvmmap va pa PGSIZE (PTE_R OR PTE_W) s) (\<lambda>_ s.
                   Done () (upd_proc i (\<lambda>p. p\<lparr>p_kstack := va\<rparr>) s)))) [0..<NPROC] s) (\<lambda>_ s.
     kvminithart s)"

definition allocpid :: "'z proc_st_scheme \<Rightarrow> int \<times> 'z proc_st_scheme" where
  "allocpid s = (nextpid s, s\<lparr>nextpid := nextpid s + 1\<rparr>)"

text \<open>\<open>proc_pagetable\<close> ignores the results of the two \<open>mappages\<close> calls.\<close>

definition proc_pagetable :: "nat \<Rightarrow> 'z proc_st_scheme \<Rightarrow> (u64, 'z proc_st_scheme) outcome" where
  "proc_pagetable i s =
     bnd (uvmcreate s) (\<lambda>pagetable s.
     bnd (mappages pagetable TRAMPOLINE PGSIZE (trampoline s) (PTE_R OR PTE_X) s) (\<lambda>_ s.
     bnd (mappages pagetable TRAPFRAME PGSIZE (p_tf (procs s i)) (PTE_R OR PTE_W) s) (\<lambda>_ s.
     Done pagetable s)))"

definition proc_freepagetable :: "u64 \<Rightarrow> u64 \<Rightarrow> 'z proc_st_scheme \<Rightarrow> (unit, 'z proc_st_scheme) outcome" where
  "proc_freepagetable pagetable sz s =
     bnd (uvmunmap pagetable TRAMPOLINE PGSIZE False s) (\<lambda>_ s.
     bnd (uvmunmap pagetable TRAPFRAME PGSIZE False s) (\<lambda>_ s.
     if sz > 0 then uvmfree pagetable sz s else Done () s))"

text \<open>The search loop of \<open>allocproc\<close>, and the rest from the label \<open>found\<close> on.\<close>

definition find_unused :: "'z proc_st_scheme \<Rightarrow> nat option" where
  "find_unused s = List.find (\<lambda>i. p_state (procs s i) = UNUSED) [0..<NPROC]"

definition allocproc_found :: "nat \<Rightarrow> 'z proc_st_scheme \<Rightarrow> (nat option, 'z proc_st_scheme) outcome" where
  "allocproc_found i s =
     (let (pid, s) = allocpid s; s = upd_proc i (\<lambda>p. p\<lparr>p_pid := pid\<rparr>) s
      in bnd (kalloc s) (\<lambda>tf s.
           let s = upd_proc i (\<lambda>p. p\<lparr>p_tf := tf\<rparr>) s
           in if tf = 0 then Done None s
              else bnd (proc_pagetable i s) (\<lambda>pt s.
                let s = upd_proc i (\<lambda>p. p\<lparr>p_pagetable := pt\<rparr>) s;
                    s = upd_proc i (\<lambda>p. p\<lparr>p_context := \<lparr>ctx_ra = forkret_addr s, ctx_sp = p_kstack p + PGSIZE,
                          ctx_s = replicate 12 0\<rparr>\<rparr>) s
                in Done (Some i) s)))"

definition allocproc :: "'z proc_st_scheme \<Rightarrow> (nat option, 'z proc_st_scheme) outcome" where
  "allocproc s = (case find_unused s of None \<Rightarrow> Done None s | Some i \<Rightarrow> allocproc_found i s)"

definition freeproc :: "nat \<Rightarrow> 'z proc_st_scheme \<Rightarrow> (unit, 'z proc_st_scheme) outcome" where
  "freeproc i s =
     bnd (if p_tf (procs s i) \<noteq> 0 then kfree (p_tf (procs s i)) s else Done () s) (\<lambda>_ s.
     let s = upd_proc i (\<lambda>p. p\<lparr>p_tf := 0\<rparr>) s in
     bnd (if p_pagetable (procs s i) \<noteq> 0
          then proc_freepagetable (p_pagetable (procs s i)) (p_sz (procs s i)) s else Done () s) (\<lambda>_ s.
     Done () (upd_proc i (\<lambda>p. p\<lparr>p_pagetable := 0, p_sz := 0, p_pid := 0, p_parent := None,
       p_name := (p_name p)(0 := 0), p_chan := None, p_killed := 0, p_xstate := 0, p_state := UNUSED\<rparr>) s)))"

text \<open>
  \<open>growproc\<close> keeps the size in a \<open>uint\<close>: sizes are truncated to 32 bits, and \<open>sz + n\<close> wraps
  there before it is widened again for the callee.
\<close>

definition growproc :: "int \<Rightarrow> 'z proc_st_scheme \<Rightarrow> (int, 'z proc_st_scheme) outcome" where
  "growproc n = with_proc (\<lambda>s i.
     let sz = (ucast (p_sz (procs s i)) :: u32);
         pt = p_pagetable (procs s i);
         newsz = (ucast (sz + of_int n) :: u64);
         set_sz = (\<lambda>sz s. upd_proc i (\<lambda>p. p\<lparr>p_sz := ucast (sz :: u32)\<rparr>) s)
     in if n > 0
        then bnd (uvmalloc pt (ucast sz) newsz s) (\<lambda>r s.
               if (ucast r :: u32) = 0 then Done (-1) s else Done 0 (set_sz (ucast r) s))
        else if n < 0
        then bnd (uvmdealloc pt (ucast sz) newsz s) (\<lambda>r s. Done 0 (set_sz (ucast r) s))
        else Done 0 (set_sz sz s))"

definition reparent :: "nat \<Rightarrow> 'z proc_st_scheme \<Rightarrow> 'z proc_st_scheme" where
  "reparent i s = fold (\<lambda>j s. if p_parent (procs s j) = Some i
     then upd_proc j (\<lambda>p. p\<lparr>p_parent := initproc s\<rparr>) s else s) [0..<NPROC] s"

text \<open>
  \<open>sleep\<close>: the process is marked, and \<open>sched\<close> gives up the CPU. The outcome \<open>Block\<close> carries
  the state at that point.
\<close>

definition sleep_on :: "chan \<Rightarrow> 'z proc_st_scheme \<Rightarrow> ('a, 'z proc_st_scheme) outcome" where
  "sleep_on ch = with_proc (\<lambda>s i. Block ch (upd_proc i (\<lambda>p. p\<lparr>p_chan := Some ch, p_state := SLEEPING\<rparr>) s))"

definition wakeup :: "chan \<Rightarrow> 'z proc_st_scheme \<Rightarrow> 'z proc_st_scheme" where
  "wakeup ch s = fold (\<lambda>i s. if p_state (procs s i) = SLEEPING \<and> p_chan (procs s i) = Some ch
     then upd_proc i (\<lambda>p. p\<lparr>p_state := RUNNABLE\<rparr>) s else s) [0..<NPROC] s"

definition wakeup1 :: "nat \<Rightarrow> 'z proc_st_scheme \<Rightarrow> 'z proc_st_scheme" where
  "wakeup1 i s = (if p_chan (procs s i) = Some (ChanProc i) \<and> p_state (procs s i) = SLEEPING
     then upd_proc i (\<lambda>p. p\<lparr>p_state := RUNNABLE\<rparr>) s else s)"

fun kill_from :: "int \<Rightarrow> nat list \<Rightarrow> 'z proc_st_scheme \<Rightarrow> int \<times> 'z proc_st_scheme" where
  "kill_from pid [] s = (-1, s)"
| "kill_from pid (i # is) s =
     (if p_pid (procs s i) = pid
      then (0, upd_proc i (\<lambda>p. p\<lparr>p_killed := 1,
              p_state := (if p_state p = SLEEPING then RUNNABLE else p_state p)\<rparr>) s)
      else kill_from pid is s)"

definition kill :: "int \<Rightarrow> 'z proc_st_scheme \<Rightarrow> int \<times> 'z proc_st_scheme" where
  "kill pid s = kill_from pid [0..<NPROC] s"

text \<open>The four bytes of an \<open>int\<close>, little-endian.\<close>

definition int_bytes :: "u32 \<Rightarrow> u8 list" where
  "int_bytes w = map (\<lambda>k. ucast (drop_bit (8 * k) w)) [0..<4]"

text \<open>The scan of \<open>wait\<close>: \<open>havekids\<close> so far, and the rest of the table.\<close>

fun wait_scan :: "nat \<Rightarrow> u64 \<Rightarrow> bool \<Rightarrow> nat list \<Rightarrow> 'z proc_st_scheme \<Rightarrow> (int, 'z proc_st_scheme) outcome" where
  "wait_scan me addr havekids [] s =
     (if \<not> havekids \<or> p_killed (procs s me) \<noteq> 0 then Done (-1) s else sleep_on (ChanProc me) s)"
| "wait_scan me addr havekids (j # js) s =
     (if p_parent (procs s j) = Some me
      then if p_state (procs s j) = ZOMBIE
           then let pid = p_pid (procs s j)
                in bnd (if addr \<noteq> 0
                        then copyout (p_pagetable (procs s me)) addr (int_bytes (of_int (p_xstate (procs s j)))) s
                        else Done 0 s) (\<lambda>r s.
                     if r < 0 then Done (-1) s else bnd (freeproc j s) (\<lambda>_ s. Done pid s))
           else wait_scan me addr True js s
      else wait_scan me addr havekids js s)"

definition wait :: "u64 \<Rightarrow> 'z proc_st_scheme \<Rightarrow> (int, 'z proc_st_scheme) outcome" where
  "wait addr = with_proc (\<lambda>s me. wait_scan me addr False [0..<NPROC] s)"

text \<open>
  One pass of the scheduler's table scan, up to the \<open>swtch\<close> to a process it found, and what it
  does when the process comes back. With no process found the CPU waits for an interrupt.
\<close>

definition scheduler_pick :: "nat \<Rightarrow> 'z proc_st_scheme \<Rightarrow> nat option \<times> 'z proc_st_scheme" where
  "scheduler_pick from s =
     (case List.find (\<lambda>i. p_state (procs s i) = RUNNABLE) [from..<NPROC] of
        None \<Rightarrow> (None, s)
      | Some i \<Rightarrow> (Some i, (upd_proc i (\<lambda>p. p\<lparr>p_state := RUNNING\<rparr>) s)\<lparr>cur := Some i\<rparr>))"

definition scheduler_back :: "'z proc_st_scheme \<Rightarrow> 'z proc_st_scheme" where
  "scheduler_back s = s\<lparr>cur := None\<rparr>"

text \<open>\<open>sched\<close>: the check on the process state; those on locks and interrupts are in \<open>Xv6_Spinlock\<close>.\<close>

definition sched :: "'z proc_st_scheme \<Rightarrow> (unit, 'z proc_st_scheme) outcome" where
  "sched = with_proc (\<lambda>s i. if p_state (procs s i) = RUNNING then Panic ''sched running''
     else Done () (scheduler_back s))"

definition yield :: "'z proc_st_scheme \<Rightarrow> (unit, 'z proc_st_scheme) outcome" where
  "yield = with_proc (\<lambda>s i. sched (upd_proc i (\<lambda>p. p\<lparr>p_state := RUNNABLE\<rparr>) s))"

text \<open>
  Copies to or from a user address or a kernel buffer. A kernel source is the list of its bytes;
  the bytes for a kernel destination are returned to the caller, whose buffer it is.
\<close>

datatype dst = UserDst u64 | KernDst
datatype src = UserSrc u64 | KernSrc "u8 list"

definition either_copyout :: "dst \<Rightarrow> u8 list \<Rightarrow> 'z proc_st_scheme \<Rightarrow> (int, 'z proc_st_scheme) outcome" where
  "either_copyout d bs = with_proc (\<lambda>s i.
     case d of UserDst a \<Rightarrow> copyout (p_pagetable (procs s i)) a bs s | KernDst \<Rightarrow> Done 0 s)"

definition either_copyin :: "src \<Rightarrow> nat \<Rightarrow> 'z proc_st_scheme \<Rightarrow> (int \<times> u8 list, 'z proc_st_scheme) outcome" where
  "either_copyin x len = with_proc (\<lambda>s i.
     case x of UserSrc a \<Rightarrow> copyin (p_pagetable (procs s i)) a len s | KernSrc bs \<Rightarrow> Done (0, take len bs) s)"

text \<open>\<open>procdump\<close> as the lines it prints: pid, state and name of each process in use.\<close>

definition state_name :: "procstate \<Rightarrow> string" where
  "state_name st = (case st of UNUSED \<Rightarrow> ''unused'' | SLEEPING \<Rightarrow> ''sleep '' | RUNNABLE \<Rightarrow> ''runble''
     | RUNNING \<Rightarrow> ''run   '' | ZOMBIE \<Rightarrow> ''zombie'')"

definition procdump :: "'z proc_st_scheme \<Rightarrow> (int \<times> string \<times> u8 list) list" where
  "procdump s = map (\<lambda>i. (p_pid (procs s i), state_name (p_state (procs s i)), cstr 16 (p_name (procs s i))))
     (filter (\<lambda>i. p_state (procs s i) \<noteq> UNUSED) [0..<NPROC])"

section \<open>Frames\<close>

lemma mem_only_proc_fields:
  fixes s s0 :: "'z proc_st_scheme"
  assumes "mem_only s0 s"
  shows "procs s = procs s0" "nextpid s = nextpid s0" "initproc s = initproc s0" "cur s = cur s0"
    "forkret_addr s = forkret_addr s0"
  using assms [unfolded mem_only_def, THEN arg_cong, of procs]
    assms [unfolded mem_only_def, THEN arg_cong, of nextpid]
    assms [unfolded mem_only_def, THEN arg_cong, of initproc]
    assms [unfolded mem_only_def, THEN arg_cong, of cur]
    assms [unfolded mem_only_def, THEN arg_cong, of forkret_addr]
  by simp_all

lemma upd_proc_simps [simp]:
  "procs (upd_proc i f s) = (procs s)(i := f (procs s i))" "nextpid (upd_proc i f s) = nextpid s"
  "initproc (upd_proc i f s) = initproc s" "cur (upd_proc i f s) = cur s"
  "forkret_addr (upd_proc i f s) = forkret_addr s" "mem (upd_proc i f s) = mem s"
  "freelist (upd_proc i f s) = freelist s" "kend (upd_proc i f s) = kend s"
  by (simp_all add: upd_proc_def)

lemma mem_only_proc_pagetable [mem_only_intros]:
  "mem_only s0 s \<Longrightarrow> keeps (mem_only s0) (proc_pagetable i s)"
  unfolding proc_pagetable_def by (intro keeps_bnd mem_only_intros; simp)

lemma mem_only_proc_freepagetable [mem_only_intros]:
  "mem_only s0 s \<Longrightarrow> keeps (mem_only s0) (proc_freepagetable pt sz s)"
  unfolding proc_freepagetable_def by (intro keeps_bnd keeps_if mem_only_intros; simp)

text \<open>A loop over the table that treats each entry on its own is a pointwise update.\<close>

lemma fold_upd_procs:
  assumes "\<And>i s. procs (f i s) = (procs s)(i := g i (procs s i))" and "distinct is"
  shows "procs (fold f is s) i = (if i \<in> set is then g i (procs s i) else procs s i)"
  using assms(2) by (induction "is" arbitrary: s) (auto simp: assms(1))

lemma procs_wakeup:
  "procs (wakeup ch s) i =
     (if i < NPROC \<and> p_state (procs s i) = SLEEPING \<and> p_chan (procs s i) = Some ch
      then (procs s i)\<lparr>p_state := RUNNABLE\<rparr> else procs s i)"
  unfolding wakeup_def
  by (subst fold_upd_procs [where g = "\<lambda>i p. if p_state p = SLEEPING \<and> p_chan p = Some ch
        then p\<lparr>p_state := RUNNABLE\<rparr> else p"]) (auto simp: upd_proc_def)

lemma fold_keeps_field:
  assumes "\<And>i s. F (f i s) = F s"
  shows "F (fold f is s) = F s"
  by (induction "is" arbitrary: s) (simp_all add: assms)

lemma wakeup_fields [simp, frame_simps]:
  "nextpid (wakeup ch s) = nextpid s" "initproc (wakeup ch s) = initproc s" "cur (wakeup ch s) = cur s"
  "mem (wakeup ch s) = mem s" "freelist (wakeup ch s) = freelist s" "kend (wakeup ch s) = kend s"
  unfolding wakeup_def by (rule fold_keeps_field, simp)+

lemma p_pid_wakeup [simp]: "p_pid (procs (wakeup ch s) i) = p_pid (procs s i)"
  by (simp add: procs_wakeup)

text \<open>
  C38: \<open>wakeup\<close> makes runnable exactly the processes that sleep on the channel; every other
  process, and every other field of those, is as it was.
\<close>

theorem wakeup_wakes_exactly:
  "procs (wakeup ch s) = (\<lambda>i. if i < NPROC \<and> p_state (procs s i) = SLEEPING \<and> p_chan (procs s i) = Some ch
      then (procs s i)\<lparr>p_state := RUNNABLE\<rparr> else procs s i)"
  by (rule ext) (rule procs_wakeup)

section \<open>Process ids\<close>

definition pids_ok :: "'z proc_st_scheme \<Rightarrow> bool" where
  "pids_ok s \<longleftrightarrow> 0 < nextpid s \<and> (\<forall>i < NPROC. 0 \<le> p_pid (procs s i) \<and> p_pid (procs s i) < nextpid s)
     \<and> (\<forall>i < NPROC. \<forall>j < NPROC. i \<noteq> j \<longrightarrow> p_pid (procs s i) = p_pid (procs s j) \<longrightarrow> p_pid (procs s i) = 0)"

lemma pids_ok_cong:
  assumes "pids_ok s" and "nextpid s' = nextpid s" and "\<And>i. p_pid (procs s' i) = p_pid (procs s i)"
  shows "pids_ok s'"
  using assms by (simp add: pids_ok_def)

lemma pids_ok_clear:
  assumes "pids_ok s" and "nextpid s' = nextpid s"
    and "\<And>i. p_pid (procs s' i) = p_pid (procs s i) \<or> p_pid (procs s' i) = 0"
  shows "pids_ok s'"
proof -
  have "0 \<le> p_pid (procs s' i) \<and> p_pid (procs s' i) < nextpid s'" if "i < NPROC" for i
    using assms(1,2) assms(3) [of i] that by (auto simp: pids_ok_def)
  moreover have "p_pid (procs s' i) = 0" if "i < NPROC" "j < NPROC" "i \<noteq> j" "p_pid (procs s' i) = p_pid (procs s' j)" for i j
    using assms(1) assms(3) [of i] assms(3) [of j] that unfolding pids_ok_def by metis
  ultimately show ?thesis using assms(1,2) unfolding pids_ok_def by metis
qed

lemma pids_ok_mem_only: "mem_only s s' \<Longrightarrow> pids_ok s \<Longrightarrow> pids_ok s'"
  by (rule pids_ok_cong) (simp_all add: mem_only_proc_fields)

lemma keeps_pids_ok: "pids_ok s \<Longrightarrow> keeps (mem_only s) m \<Longrightarrow> keeps pids_ok m"
  by (cases m) (auto dest: pids_ok_mem_only)

lemma pids_ok_upd: "pids_ok s \<Longrightarrow> (\<And>p. p_pid (f p) = p_pid p) \<Longrightarrow> pids_ok (upd_proc i f s)"
  by (erule pids_ok_cong) simp_all

text \<open>A slot that gets the next id.\<close>

lemma pids_ok_alloc:
  assumes "pids_ok s" and "\<And>p. p_pid (f p) = nextpid s"
  shows "pids_ok (upd_proc i f (s\<lparr>nextpid := nextpid s + 1\<rparr>))"
proof -
  have "p_pid (procs s j) < nextpid s" if "j < NPROC" for j using assms(1) that by (simp add: pids_ok_def)
  then show ?thesis using assms unfolding pids_ok_def by (auto simp: less_imp_neq)
qed

lemma pids_ok_kalloc: "pids_ok s \<Longrightarrow> keeps pids_ok (kalloc s)"
  by (erule keeps_pids_ok) (intro mem_only_intros mem_only_refl)

lemma pids_ok_proc_pagetable: "pids_ok s \<Longrightarrow> keeps pids_ok (proc_pagetable i s)"
  by (erule keeps_pids_ok) (intro mem_only_intros mem_only_refl)

lemma pids_ok_allocproc: "pids_ok s \<Longrightarrow> keeps pids_ok (allocproc s)"
  unfolding allocproc_def allocproc_found_def allocpid_def
  by (auto simp: Let_def split: option.split
      intro!: keeps_bnd keeps_if pids_ok_upd pids_ok_alloc pids_ok_kalloc pids_ok_proc_pagetable)

lemma pids_ok_kfree: "pids_ok s \<Longrightarrow> keeps pids_ok (kfree pa s)"
  by (erule keeps_pids_ok) (intro mem_only_intros mem_only_refl)

lemma pids_ok_proc_freepagetable: "pids_ok s \<Longrightarrow> keeps pids_ok (proc_freepagetable pt sz s)"
  by (erule keeps_pids_ok) (intro mem_only_intros mem_only_refl)

lemma pids_ok_upd_clear: "pids_ok s \<Longrightarrow> (\<And>p. p_pid (f p) = 0) \<Longrightarrow> pids_ok (upd_proc i f s)"
  by (erule pids_ok_clear) simp_all

lemma pids_ok_freeproc: "pids_ok s \<Longrightarrow> keeps pids_ok (freeproc i s)"
  unfolding freeproc_def Let_def
  by (intro keeps_bnd keeps_if pids_ok_kfree pids_ok_proc_freepagetable)
    (auto intro: pids_ok_upd pids_ok_upd_clear)

lemma pids_ok_growproc: "pids_ok s \<Longrightarrow> keeps pids_ok (growproc n s)"
  unfolding growproc_def with_proc_def Let_def
  by (cases "cur s")
    (auto intro!: keeps_bnd pids_ok_upd keeps_pids_ok [OF _ mem_only_uvmalloc] keeps_pids_ok [OF _ mem_only_uvmdealloc])

lemma pids_ok_sleep_on: "pids_ok s \<Longrightarrow> keeps pids_ok (sleep_on ch s)"
  unfolding sleep_on_def with_proc_def by (cases "cur s") (auto intro!: pids_ok_upd)

lemma pids_ok_wait_scan: "pids_ok s \<Longrightarrow> keeps pids_ok (wait_scan me addr h js s)"
proof (induction js arbitrary: h)
  case Nil
  then show ?case by (auto intro: pids_ok_sleep_on)
next
  case (Cons j js)
  have "keeps pids_ok (copyout pt a bs s)" for pt a bs
    by (rule keeps_pids_ok [OF Cons.prems mem_only_copyout]) simp
  with Cons show ?case by (auto simp: Let_def intro!: keeps_bnd pids_ok_freeproc)
qed

lemma pids_ok_yield: "pids_ok s \<Longrightarrow> keeps pids_ok (yield s)"
  unfolding yield_def sched_def with_proc_def scheduler_back_def
  by (cases "cur s") (auto elim!: pids_ok_cong)

lemma p_pid_kill_from [simp]:
  "p_pid (procs (snd (kill_from pid is s)) j) = p_pid (procs s j)" "nextpid (snd (kill_from pid is s)) = nextpid s"
  by (induction "is") auto

lemma p_pid_reparent [simp]: "p_pid (procs (reparent i s) j) = p_pid (procs s j)" "nextpid (reparent i s) = nextpid s"
proof -
  let ?f = "\<lambda>j s. if p_parent (procs s j) = Some i then upd_proc j (\<lambda>p. p\<lparr>p_parent := initproc s\<rparr>) s else s"
  show "p_pid (procs (reparent i s) j) = p_pid (procs s j)"
    unfolding reparent_def by (rule fold_keeps_field [of "\<lambda>s. p_pid (procs s j)"]) simp
  show "nextpid (reparent i s) = nextpid s"
    unfolding reparent_def by (rule fold_keeps_field) simp
qed

text \<open>The steps of the process table: every operation of \<open>proc.c\<close> on it.\<close>

inductive proc_step :: "'z proc_st_scheme \<Rightarrow> 'z proc_st_scheme \<Rightarrow> bool" where
  step_alloc: "allocproc s = Done r s' \<Longrightarrow> proc_step s s'"
| step_free: "freeproc i s = Done r s' \<Longrightarrow> proc_step s s'"
| step_grow: "growproc n s = Done r s' \<Longrightarrow> proc_step s s'"
| step_reparent: "proc_step s (reparent i s)"
| step_sleep: "sleep_on ch s = (Block ch s' :: (unit, 'z proc_st_scheme) outcome) \<Longrightarrow> proc_step s s'"
| step_wakeup: "proc_step s (wakeup ch s)"
| step_kill: "proc_step s (snd (kill pid s))"
| step_wait: "wait addr s = Done r s' \<Longrightarrow> proc_step s s'"
| step_wait_sleep: "wait addr s = Block ch s' \<Longrightarrow> proc_step s s'"
| step_pick: "proc_step s (snd (scheduler_pick from s))"
| step_yield: "yield s = Done r s' \<Longrightarrow> proc_step s s'"

lemma keeps_Block: "keeps P m \<Longrightarrow> m = Block c s \<Longrightarrow> P s"
  by simp

lemma pids_ok_wait: "pids_ok s \<Longrightarrow> keeps pids_ok (wait addr s)"
  unfolding wait_def with_proc_def by (cases "cur s") (auto intro: pids_ok_wait_scan)

lemma pids_ok_step: "proc_step s s' \<Longrightarrow> pids_ok s \<Longrightarrow> pids_ok s'"
proof (induction rule: proc_step.induct)
  case (step_pick s "from")
  then show ?case
    by (auto simp: scheduler_pick_def split: option.split elim!: pids_ok_cong)
next
  case (step_kill s pid)
  then show ?case unfolding kill_def by (rule pids_ok_cong) simp_all
next
  case (step_wakeup s ch)
  then show ?case by (rule pids_ok_cong) simp_all
next
  case (step_reparent s i)
  then show ?case by (rule pids_ok_cong) simp_all
qed (blast intro: keepsD keeps_Block pids_ok_allocproc pids_ok_freeproc pids_ok_growproc pids_ok_sleep_on
    pids_ok_wait pids_ok_yield)+


section \<open>Waiting for a child\<close>

lemma wait_scan_eq:
  assumes "cur s = Some me"
  shows "wait_scan me 0 h js s =
    (case List.find (\<lambda>j. p_parent (procs s j) = Some me \<and> p_state (procs s j) = ZOMBIE) js of
       Some j \<Rightarrow> bnd (freeproc j s) (\<lambda>_ s'. Done (p_pid (procs s j)) s')
     | None \<Rightarrow> if (h \<or> (\<exists>j \<in> set js. p_parent (procs s j) = Some me)) \<and> p_killed (procs s me) = 0
               then Block (ChanProc me) (upd_proc me (\<lambda>p. p\<lparr>p_chan := Some (ChanProc me), p_state := SLEEPING\<rparr>) s)
               else Done (-1) s)"
proof (induction js arbitrary: h)
  case Nil
  then show ?case using assms by (auto simp: sleep_on_def with_proc_def)
next
  case (Cons j js)
  then show ?case by (auto simp: Let_def split: option.split)
qed


section \<open>Killing a process id of no process\<close>

text \<open>A table whose entries are all unused, and memory with four free pages.\<close>

definition boot_proc :: proc where
  "boot_proc = \<lparr>p_state = UNUSED, p_parent = None, p_chan = None, p_killed = 0, p_xstate = 0, p_pid = 0,
     p_kstack = 0, p_sz = 0, p_pagetable = 0, p_tf = 0, p_context = \<lparr>ctx_ra = 0, ctx_sp = 0, ctx_s = []\<rparr>,
     p_ofile = (\<lambda>_. None), p_cwd = None, p_name = (\<lambda>_. 0)\<rparr>"

definition boot_table :: proc_st where
  "boot_table = \<lparr>kend = 0x1000, mem = (\<lambda>_ _. 0)(0x1000 := (\<lambda>_. 0)(0 := 0x2000),
       0x2000 := (\<lambda>_. 0)(0 := 0x3000), 0x3000 := (\<lambda>_. 0)(0 := 0x4000)), freelist = 0x1000, kernel_pagetable = 0, etext = 0, trampoline = 0,
     satp = 0, procs = (\<lambda>_. boot_proc), nextpid = 1, initproc = None, cur = None, forkret_addr = 0\<rparr>"

lemma find_upt_Some:
  assumes "List.find P [0..<n] = Some i"
  shows "i < n \<and> P i \<and> (\<forall>j < i. \<not> P j)"
  using assms by (auto simp: find_Some_iff)

lemma kill_from_first:
  assumes "List.find (\<lambda>i. p_pid (procs s i) = pid) is = Some i"
  shows "kill_from pid is s = (0, upd_proc i (\<lambda>p. p\<lparr>p_killed := 1,
              p_state := (if p_state p = SLEEPING then RUNNABLE else p_state p)\<rparr>) s)"
  using assms by (induction "is") (auto split: if_splits)

lemma p_killed_proc_pagetable:
  assumes "proc_pagetable i s = Done pt s'"
  shows "procs s' = procs s"
  using keepsD [OF mem_only_proc_pagetable [OF mem_only_refl] assms] by (simp add: mem_only_proc_fields)

lemma procs_kalloc: "kalloc s = Done r s' \<Longrightarrow> procs s' = procs s"
  using keepsD [OF mem_only_kalloc [OF mem_only_refl]] by (metis mem_only_proc_fields(1))

text \<open>
  C40: \<open>kill\<close> does not look at the state of the entry it matches, and \<open>allocproc\<close> does not clear
  \<open>killed\<close>. With an unused entry (pid 0) first in the table, \<open>kill(0)\<close> returns success, and the next
  process allocated from that entry starts out killed.
\<close>

theorem kill_zero_dooms_next_process:
  assumes "find_unused s = Some i" and "\<And>j. j < NPROC \<Longrightarrow> p_pid (procs s j) = 0 \<longleftrightarrow> p_state (procs s j) = UNUSED"
    and "kill 0 s = (r, s1)" and "allocproc s1 = Done (Some k) s2"
  shows "r = 0 \<and> k = i \<and> p_pid (procs s2 k) = nextpid s \<and> p_killed (procs s2 k) = 1"
proof -
  have i: "i < NPROC" "p_state (procs s i) = UNUSED" "\<And>j. j < i \<Longrightarrow> p_state (procs s j) \<noteq> UNUSED"
    using find_upt_Some [OF assms(1) [unfolded find_unused_def]] by auto
  have "List.find (\<lambda>i. p_pid (procs s i) = 0) [0..<NPROC] = List.find (\<lambda>i. p_state (procs s i) = UNUSED) [0..<NPROC]"
    by (rule find_cong) (auto simp: assms(2))
  then have s1: "r = 0" "s1 = upd_proc i (\<lambda>p. p\<lparr>p_killed := 1, p_state := UNUSED\<rparr>) s"
    using kill_from_first [of s 0 "[0..<NPROC]" i] assms(1,3) i(2)
    by (simp_all add: kill_def find_unused_def upd_proc_def)
  have "find_unused s1 = Some i"
    using assms(1) unfolding find_unused_def s1(2) by (subst find_cong [OF refl]) (auto simp: i(2))
  with assms(4) have found: "allocproc_found i s1 = Done (Some k) s2" by (simp add: allocproc_def)
  then show ?thesis
    by (auto simp: allocproc_found_def allocpid_def Let_def s1 split: if_splits dest!: procs_kalloc p_killed_proc_pagetable)
qed


lemma boot_table_kill:
  "\<exists>s1 s2. kill 0 boot_table = (0, s1) \<and> allocproc s1 = Done (Some 0) s2"
proof -
  have "fst (kill 0 boot_table) = 0 \<and> returns (allocproc (snd (kill 0 boot_table))) (\<lambda>r s. r = Some 0)"
    by code_simp
  then show ?thesis by (auto simp: returns_iff) (metis prod.collapse)
qed

lemma boot_table_unused: "find_unused boot_table = Some 0"
  by code_simp

theorem kill_zero_dooms_next_process_witness:
  "\<exists>s1 s2. kill 0 boot_table = (0, s1) \<and> allocproc s1 = Done (Some 0) s2
     \<and> p_pid (procs s2 0) = 1 \<and> p_killed (procs s2 0) = 1"
proof -
  obtain s1 s2 where r: "kill 0 boot_table = (0, s1)" "allocproc s1 = Done (Some 0) s2"
    using boot_table_kill by blast
  show ?thesis
    using kill_zero_dooms_next_process [OF boot_table_unused _ r] r by (auto simp: boot_table_def boot_proc_def)
qed



end
