(* ===== verification/Xv6_Sleeplock.thy ===== *)
theory Xv6_Sleeplock
  imports Xv6_Proc
begin

text \<open>
  \<open>kernel/sleeplock.c\<close>: locks that a process may hold across a sleep. Buffers and inodes each
  contain one, so the operations take the sleep channel of the lock (its address) and how to
  read and write it in the state. The spin lock inside a sleep lock makes each operation atomic.
\<close>

record sleeplock =
  sl_locked :: bool
  sl_name :: string
  sl_pid :: int

definition initsleeplock :: "string \<Rightarrow> sleeplock" where
  "initsleeplock name = \<lparr>sl_locked = False, sl_name = name, sl_pid = 0\<rparr>"

text \<open>A process that finds the lock taken sleeps; it tries again when it is woken.\<close>

definition acquiresleep :: "chan \<Rightarrow> ('z proc_st_scheme \<Rightarrow> sleeplock) \<Rightarrow>
    (sleeplock \<Rightarrow> 'z proc_st_scheme \<Rightarrow> 'z proc_st_scheme) \<Rightarrow> 'z proc_st_scheme \<Rightarrow> (unit, 'z proc_st_scheme) outcome" where
  "acquiresleep lk get put = with_proc (\<lambda>s me.
     if sl_locked (get s) then sleep_on lk s
     else Done () (put ((get s)\<lparr>sl_locked := True, sl_pid := p_pid (procs s me)\<rparr>) s))"

definition releasesleep :: "chan \<Rightarrow> ('z proc_st_scheme \<Rightarrow> sleeplock) \<Rightarrow>
    (sleeplock \<Rightarrow> 'z proc_st_scheme \<Rightarrow> 'z proc_st_scheme) \<Rightarrow> 'z proc_st_scheme \<Rightarrow> 'z proc_st_scheme" where
  "releasesleep lk get put s = wakeup lk (put ((get s)\<lparr>sl_locked := False, sl_pid := 0\<rparr>) s)"

text \<open>The current process is only looked at when the lock is taken.\<close>

definition holdingsleep :: "('z proc_st_scheme \<Rightarrow> sleeplock) \<Rightarrow> 'z proc_st_scheme \<Rightarrow> (bool, 'z proc_st_scheme) outcome" where
  "holdingsleep get s =
     (if \<not> sl_locked (get s) then Done False s
      else with_proc (\<lambda>s me. Done (sl_pid (get s) = p_pid (procs s me)) s) s)"

section \<open>Processes woken up\<close>

text \<open>
  The change that \<open>wakeup\<close> makes to the process table, and any number of wakeups make: some
  sleeping processes have become runnable.
\<close>

definition woken :: "(nat \<Rightarrow> proc) \<Rightarrow> (nat \<Rightarrow> proc) \<Rightarrow> bool" where
  "woken P Q \<longleftrightarrow> (\<forall>i. Q i = P i \<or> p_state (P i) = SLEEPING \<and> Q i = (P i)\<lparr>p_state := RUNNABLE\<rparr>)"

lemma woken_refl [simp]: "woken P P"
  by (simp add: woken_def)

lemma woken_trans: "woken P Q \<Longrightarrow> woken Q R \<Longrightarrow> woken P R"
  unfolding woken_def by (metis (no_types, lifting) proc.select_convs(1) proc.surjective proc.update_convs(1) procstate.distinct(9))

lemma woken_wakeup: "woken (procs s) (procs (wakeup ch s))"
  by (simp add: woken_def procs_wakeup)

lemma woken_pid: "woken P Q \<Longrightarrow> p_pid (Q i) = p_pid (P i)"
  unfolding woken_def by (metis proc.select_convs(6) proc.surjective proc.update_convs(1))

text \<open>A running process is not touched.\<close>

lemma woken_running: "woken P Q \<Longrightarrow> p_state (P i) \<noteq> SLEEPING \<Longrightarrow> Q i = P i"
  unfolding woken_def by metis

end
