(* ===== verification/Xv6_Block.thy ===== *)
theory Xv6_Block
  imports Xv6_Prelude
begin

text \<open>
  Disk blocks of \<open>BSIZE\<close> (\<open>kernel/fs.h\<close>) bytes and the little-endian fields that the kernel
  reads and writes in them through casts of \<open>b->data\<close> to structures.
\<close>

definition BSIZE :: nat where "BSIZE = 1024"

type_synonym block = "10 word \<Rightarrow> u8"

text \<open>The byte, the 16-bit and the 32-bit field at a byte offset.\<close>

definition get8 :: "block \<Rightarrow> nat \<Rightarrow> u8" where
  "get8 b k = b (of_nat k)"

definition put8 :: "block \<Rightarrow> nat \<Rightarrow> u8 \<Rightarrow> block" where
  "put8 b k x = b(of_nat k := x)"

definition get16 :: "block \<Rightarrow> nat \<Rightarrow> u16" where
  "get16 b k = ucast (get8 b k) OR push_bit 8 (ucast (get8 b (k + 1)))"

definition put16 :: "block \<Rightarrow> nat \<Rightarrow> u16 \<Rightarrow> block" where
  "put16 b k w = put8 (put8 b k (ucast w)) (k + 1) (ucast (drop_bit 8 w))"

definition get32 :: "block \<Rightarrow> nat \<Rightarrow> u32" where
  "get32 b k = ucast (get16 b k) OR push_bit 16 (ucast (get16 b (k + 2)))"

definition put32 :: "block \<Rightarrow> nat \<Rightarrow> u32 \<Rightarrow> block" where
  "put32 b k w = put16 (put16 b k (ucast w)) (k + 2) (ucast (drop_bit 16 w))"

text \<open>A slice of a block, and overwriting one.\<close>

definition slice :: "block \<Rightarrow> nat \<Rightarrow> nat \<Rightarrow> u8 list" where
  "slice b k n = map (\<lambda>j. get8 b (k + j)) [0..<n]"

fun splice :: "block \<Rightarrow> nat \<Rightarrow> u8 list \<Rightarrow> block" where
  "splice b k [] = b"
| "splice b k (x # xs) = splice (put8 b k x) (k + 1) xs"

section \<open>Reading what was written\<close>

lemma of_nat_10_eq [simp]: "i < 1024 \<Longrightarrow> j < 1024 \<Longrightarrow> (of_nat i = (of_nat j :: 10 word)) \<longleftrightarrow> i = j"
  by (auto simp: word_of_nat_eq_iff take_bit_nat_eq_self)

lemma get8_put8: "k < 1024 \<Longrightarrow> j < 1024 \<Longrightarrow> get8 (put8 b k x) j = (if j = k then x else get8 b j)"
  by (simp add: get8_def put8_def)

lemma ucast_16_split: "ucast (ucast w :: u8) OR push_bit 8 (ucast (ucast (drop_bit 8 w) :: u8)) = (w :: u16)"
  by (rule bit_word_eqI) (auto simp: bit_simps)

lemma ucast_32_split: "ucast (ucast w :: u16) OR push_bit 16 (ucast (ucast (drop_bit 16 w) :: u16)) = (w :: u32)"
  by (rule bit_word_eqI) (auto simp: bit_simps)

lemma get16_put16 [simp]: "k + 2 \<le> 1024 \<Longrightarrow> get16 (put16 b k w) k = w"
  by (simp add: get16_def put16_def get8_put8 ucast_16_split)

lemma get8_put16: "k + 2 \<le> 1024 \<Longrightarrow> j < 1024 \<Longrightarrow> j < k \<or> k + 2 \<le> j \<Longrightarrow> get8 (put16 b k w) j = get8 b j"
  by (auto simp: put16_def get8_put8)

lemma get16_put16_other:
  "k + 2 \<le> 1024 \<Longrightarrow> j + 2 \<le> 1024 \<Longrightarrow> j + 2 \<le> k \<or> k + 2 \<le> j \<Longrightarrow> get16 (put16 b k w) j = get16 b j"
  by (auto simp: get16_def get8_put16)

lemma get32_put32 [simp]: "k + 4 \<le> 1024 \<Longrightarrow> get32 (put32 b k w) k = w"
  by (simp add: get32_def put32_def get16_put16_other ucast_32_split)

lemma get8_put32: "k + 4 \<le> 1024 \<Longrightarrow> j < 1024 \<Longrightarrow> j < k \<or> k + 4 \<le> j \<Longrightarrow> get8 (put32 b k w) j = get8 b j"
  by (auto simp: put32_def get8_put16)

lemma get16_put32_other:
  "k + 4 \<le> 1024 \<Longrightarrow> j + 2 \<le> 1024 \<Longrightarrow> j + 2 \<le> k \<or> k + 4 \<le> j \<Longrightarrow> get16 (put32 b k w) j = get16 b j"
  by (auto simp: get16_def get8_put32)

lemma get32_put32_other:
  "k + 4 \<le> 1024 \<Longrightarrow> j + 4 \<le> 1024 \<Longrightarrow> j + 4 \<le> k \<or> k + 4 \<le> j \<Longrightarrow> get32 (put32 b k w) j = get32 b j"
  by (auto simp: get32_def get16_put32_other)

lemma get32_put16_other:
  "k + 2 \<le> 1024 \<Longrightarrow> j + 4 \<le> 1024 \<Longrightarrow> j + 4 \<le> k \<or> k + 2 \<le> j \<Longrightarrow> get32 (put16 b k w) j = get32 b j"
  by (auto simp: get32_def get16_put16_other)

lemma length_slice [simp]: "length (slice b k n) = n"
  by (simp add: slice_def)

lemma get8_splice:
  "k + length xs \<le> 1024 \<Longrightarrow> j < 1024 \<Longrightarrow>
   get8 (splice b k xs) j = (if k \<le> j \<and> j < k + length xs then xs ! (j - k) else get8 b j)"
  by (induction xs arbitrary: b k) (auto simp: get8_put8 nth_Cons' Suc_diff_le not_less_eq_eq)

lemma slice_splice [simp]: "k + length xs \<le> 1024 \<Longrightarrow> slice (splice b k xs) k (length xs) = xs"
  by (rule nth_equalityI) (auto simp: slice_def get8_splice)

lemma block_eqI: "(\<And>j. j < 1024 \<Longrightarrow> get8 b j = get8 c j) \<Longrightarrow> b = c"
proof (rule ext)
  fix x :: "10 word"
  assume "\<And>j. j < 1024 \<Longrightarrow> get8 b j = get8 c j"
  from this [of "unat x"] show "b x = c x" using unsigned_less [of x] by (simp add: get8_def)
qed

end
