(* ===== verification/Xv6_Bio.thy ===== *)
theory Xv6_Bio
  imports Xv6_Sleeplock Xv6_Block Xv6_List
begin

text \<open>
  \<open>kernel/bio.c\<close>, the buffer cache. The LRU list is threaded through \<open>prev\<close> and \<open>next\<close>
  fields as in the code, so the list lemmas of \<open>Xv6_List\<close> apply to it. The cache is related to
  an abstract cache, a map from disk blocks to contents and reference counts.
\<close>

section \<open>State\<close>

definition NBUF :: nat where "NBUF = 30"
definition NDISK :: nat where "NDISK = 2"

text \<open>\<open>struct buf\<close> of \<open>kernel/buf.h\<close>; the list fields are in a heap of their own.\<close>

record buf =
  b_valid :: bool
  b_disk :: bool
  b_dev :: u32
  b_blockno :: u32
  b_lock :: sleeplock
  b_refcnt :: u32
  b_data :: block

text \<open>A node of the LRU list: \<open>bcache.head\<close> or \<open>&bcache.buf[i]\<close>.\<close>

datatype bnode = Head | B nat

text \<open>
  The cache, the contents of the disks, and the history of the writes to them. The history is
  not a variable of the code: a crash leaves the disk with some prefix of it applied.
\<close>

record bcache_st = proc_st +
  bufs :: "nat \<Rightarrow> buf"
  lru :: "bnode lheap"
  disk :: "u32 \<times> u32 \<Rightarrow> block"
  dtrace :: "((u32 \<times> u32) \<times> block) list"

definition upd_buf :: "nat \<Rightarrow> (buf \<Rightarrow> buf) \<Rightarrow> 'z bcache_st_scheme \<Rightarrow> 'z bcache_st_scheme" where
  "upd_buf i f s = s\<lparr>bufs := (bufs s)(i := f (bufs s i))\<rparr>"

section \<open>Operations\<close>

definition binit :: "'z bcache_st_scheme \<Rightarrow> 'z bcache_st_scheme" where
  "binit s = fold (\<lambda>i s. (upd_buf i (\<lambda>b. b\<lparr>b_lock := initsleeplock ''buffer''\<rparr>) s)\<lparr>lru := lst_push (lru s) Head (B i)\<rparr>)
     [0..<NBUF] (s\<lparr>lru := lst_init (lru s) Head\<rparr>)"

text \<open>
  The two loops of \<open>bget\<close> over the list, in one direction or the other, up to the first buffer
  with a property; \<open>None\<close> if the list never gets back to the head.
\<close>

partial_function (option) scan :: "(bnode \<Rightarrow> bnode) \<Rightarrow> (nat \<Rightarrow> bool) \<Rightarrow> bnode \<Rightarrow> nat option option" where
  "scan link P b = (case b of Head \<Rightarrow> Some None
     | B i \<Rightarrow> if P i then Some (Some i) else scan link P (link b))"

definition lock_buf :: "nat \<Rightarrow> 'z bcache_st_scheme \<Rightarrow> (nat, 'z bcache_st_scheme) outcome" where
  "lock_buf i s = bnd (acquiresleep (ChanBufLock i) (\<lambda>s. b_lock (bufs s i)) (\<lambda>l. upd_buf i (\<lambda>b. b\<lparr>b_lock := l\<rparr>)) s)
     (\<lambda>_ s. Done i s)"

definition bget :: "u32 \<Rightarrow> u32 \<Rightarrow> 'z bcache_st_scheme \<Rightarrow> (nat, 'z bcache_st_scheme) outcome" where
  "bget dev blockno s =
     (case scan (nxt (lru s)) (\<lambda>i. b_dev (bufs s i) = dev \<and> b_blockno (bufs s i) = blockno) (nxt (lru s) Head) of
        None \<Rightarrow> Undef ''bget: endless list''
      | Some (Some i) \<Rightarrow> lock_buf i (upd_buf i (\<lambda>b. b\<lparr>b_refcnt := b_refcnt b + 1\<rparr>) s)
      | Some None \<Rightarrow>
        (case scan (prv (lru s)) (\<lambda>i. b_refcnt (bufs s i) = 0) (prv (lru s) Head) of
           None \<Rightarrow> Undef ''bget: endless list''
         | Some (Some i) \<Rightarrow> lock_buf i (upd_buf i (\<lambda>b. b\<lparr>b_dev := dev, b_blockno := blockno, b_valid := False,
             b_refcnt := 1\<rparr>) s)
         | Some None \<Rightarrow> Panic ''bget: no buffers''))"

text \<open>
  The transfer that \<open>virtio_disk_rw\<close> has the device do before it returns. The device is given
  the sector \<open>blockno * (BSIZE / 512)\<close>, computed in 32 bits.
\<close>

definition dblock :: "u32 \<Rightarrow> u32" where
  "dblock blockno = drop_bit 1 (blockno * 2)"

definition disk_rw :: "u32 \<Rightarrow> nat \<Rightarrow> bool \<Rightarrow> 'z bcache_st_scheme \<Rightarrow> (unit, 'z bcache_st_scheme) outcome" where
  "disk_rw n i write s =
     (let k = (n, dblock (b_blockno (bufs s i)))
      in if unat n \<ge> NDISK then Undef ''no such disk''
         else if write then Done () ((upd_buf i (\<lambda>b. b\<lparr>b_disk := False\<rparr>) s)
                \<lparr>disk := (disk s)(k := b_data (bufs s i)), dtrace := dtrace s @ [(k, b_data (bufs s i))]\<rparr>)
         else Done () (upd_buf i (\<lambda>b. b\<lparr>b_data := disk s k, b_disk := False\<rparr>) s))"

definition bread :: "u32 \<Rightarrow> u32 \<Rightarrow> 'z bcache_st_scheme \<Rightarrow> (nat, 'z bcache_st_scheme) outcome" where
  "bread dev blockno s =
     bnd (bget dev blockno s) (\<lambda>i s.
     if \<not> b_valid (bufs s i)
     then bnd (disk_rw (b_dev (bufs s i)) i False s) (\<lambda>_ s. Done i (upd_buf i (\<lambda>b. b\<lparr>b_valid := True\<rparr>) s))
     else Done i s)"

definition bwrite :: "nat \<Rightarrow> 'z bcache_st_scheme \<Rightarrow> (unit, 'z bcache_st_scheme) outcome" where
  "bwrite i s =
     bnd (holdingsleep (\<lambda>s. b_lock (bufs s i)) s) (\<lambda>held s.
     if \<not> held then Panic ''bwrite'' else disk_rw (b_dev (bufs s i)) i True s)"

text \<open>Moving a buffer to the front: it is unlinked, then pushed.\<close>

definition lru_front :: "bnode lheap \<Rightarrow> bnode \<Rightarrow> bnode lheap" where
  "lru_front h b =
     (let h = h\<lparr>prv := (prv h)(nxt h b := prv h b)\<rparr>;
          h = h\<lparr>nxt := (nxt h)(prv h b := nxt h b)\<rparr>;
          h = h\<lparr>nxt := (nxt h)(b := nxt h Head)\<rparr>;
          h = h\<lparr>prv := (prv h)(b := Head)\<rparr>;
          h = h\<lparr>prv := (prv h)(nxt h Head := b)\<rparr>
      in h\<lparr>nxt := (nxt h)(Head := b)\<rparr>)"

definition brelse :: "nat \<Rightarrow> 'z bcache_st_scheme \<Rightarrow> (unit, 'z bcache_st_scheme) outcome" where
  "brelse i s =
     bnd (holdingsleep (\<lambda>s. b_lock (bufs s i)) s) (\<lambda>held s.
     if \<not> held then Panic ''brelse''
     else let s = releasesleep (ChanBufLock i) (\<lambda>s. b_lock (bufs s i)) (\<lambda>l. upd_buf i (\<lambda>b. b\<lparr>b_lock := l\<rparr>)) s;
              s = upd_buf i (\<lambda>b. b\<lparr>b_refcnt := b_refcnt b - 1\<rparr>) s
          in Done () (if b_refcnt (bufs s i) = 0 then s\<lparr>lru := lru_front (lru s) (B i)\<rparr> else s))"

definition bpin :: "nat \<Rightarrow> 'z bcache_st_scheme \<Rightarrow> 'z bcache_st_scheme" where
  "bpin i s = upd_buf i (\<lambda>b. b\<lparr>b_refcnt := b_refcnt b + 1\<rparr>) s"

definition bunpin :: "nat \<Rightarrow> 'z bcache_st_scheme \<Rightarrow> 'z bcache_st_scheme" where
  "bunpin i s = upd_buf i (\<lambda>b. b\<lparr>b_refcnt := b_refcnt b - 1\<rparr>) s"

section \<open>The LRU list\<close>

lemma lru_front_eq:
  assumes "dll h Head xs" and "b \<in> set xs"
  shows "lru_front h b = lst_push (lst_remove h b) Head b"
proof -
  have "prv h b \<noteq> b" using dll_prv_neq [OF assms] .
  then show ?thesis by (intro lheap.equality) (auto simp: lru_front_def lst_push_def lst_remove_def Let_def)
qed

lemma dll_lru_front:
  assumes "dll h Head (xs @ b # ys)"
  shows "dll (lru_front h b) Head (b # xs @ ys)"
proof -
  have "b \<notin> set (Head # xs @ ys)" using assms by (auto simp: dll_def)
  with dll_push [OF dll_remove [OF assms]] show ?thesis by (simp add: lru_front_eq [OF assms])
qed

lemma scan_nxt:
  assumes "seg h a (map B xs) Head"
  shows "scan (nxt h) P (nxt h a) = Some (List.find P xs)"
  using assms by (induction xs arbitrary: a) (simp_all add: scan.simps)

lemma scan_prv:
  assumes "seg h Head (map B xs) b"
  shows "scan (prv h) P (prv h b) = Some (List.find P (rev xs))"
  using assms by (induction xs arbitrary: b rule: rev_induct) (auto simp: scan.simps seg_append)

text \<open>The list holds every buffer once.\<close>

definition lru_list :: "bnode lheap \<Rightarrow> nat list \<Rightarrow> bool" where
  "lru_list h xs \<longleftrightarrow> dll h Head (map B xs) \<and> set xs = {..<NBUF}"

lemma find_in_set: "List.find P xs = Some i \<Longrightarrow> i \<in> set xs \<and> P i"
  by (induction xs) (auto split: if_splits)

lemma lru_list_scan:
  assumes "lru_list h xs"
  shows "scan (nxt h) P (nxt h Head) = Some (List.find P xs)"
    and "scan (prv h) P (prv h Head) = Some (List.find P (rev xs))"
  using assms by (auto simp: lru_list_def dll_def intro: scan_nxt scan_prv)

lemma lru_list_front:
  assumes "lru_list h xs" and "i < NBUF"
  shows "lru_list (lru_front h (B i)) (i # remove1 i xs)"
proof -
  have d: "distinct xs" using assms(1) by (auto simp: lru_list_def dll_def distinct_map)
  obtain ys zs where xs: "xs = ys @ i # zs" using assms by (metis lessThan_iff lru_list_def split_list)
  have "dll (lru_front h (B i)) Head (B i # map B ys @ map B zs)"
    using assms(1) xs by (intro dll_lru_front) (simp add: lru_list_def)
  moreover have "remove1 i xs = ys @ zs" using d xs by (simp add: remove1_append)
  ultimately show ?thesis using assms(1) xs by (auto simp: lru_list_def)
qed
section \<open>The invariant of the cache\<close>

type_synonym bkey = "u32 \<times> u32"

definition bkey :: "buf \<Rightarrow> bkey" where
  "bkey b = (b_dev b, b_blockno b)"

text \<open>
  The blocks the file system uses. Block 0 of disk 0, the boot block, is not among them: before
  they are first used all buffers claim to hold it. Beyond block \<open>2^31\<close> sector numbers wrap.
\<close>

definition key_ok :: "bkey \<Rightarrow> bool" where
  "key_ok k \<longleftrightarrow> k \<noteq> (0, 0) \<and> unat (fst k) < NDISK \<and> unat (snd k) < 2 ^ 31"

lemma dblock_id: "unat bn < 2 ^ 31 \<Longrightarrow> dblock bn = bn"
  unfolding dblock_def by (simp add: word_unat_eq_iff unat_drop_bit unat_word_ariths)

lemma dblock_key [simp]: "key_ok (d, bn) \<Longrightarrow> dblock bn = bn"
  by (simp add: key_ok_def dblock_id)

definition live :: "buf \<Rightarrow> bool" where
  "live b \<longleftrightarrow> b_valid b \<or> b_refcnt b \<noteq> 0"

text \<open>
  A buffer in use or valid holds a block of its own; a locked buffer is valid; an unreferenced
  valid buffer agrees with the disk, so that recycling it loses nothing.
\<close>

definition buf_ok :: "(bkey \<Rightarrow> block) \<Rightarrow> buf \<Rightarrow> bool" where
  "buf_ok dsk b \<longleftrightarrow> (live b \<longrightarrow> key_ok (bkey b)) \<and> (sl_locked (b_lock b) \<longrightarrow> b_valid b)
     \<and> (b_valid b \<and> b_refcnt b = 0 \<longrightarrow> b_data b = dsk (bkey b))"

definition cache_ok :: "'z bcache_st_scheme \<Rightarrow> bool" where
  "cache_ok s \<longleftrightarrow> (\<exists>xs. lru_list (lru s) xs) \<and> (\<forall>i < NBUF. buf_ok (disk s) (bufs s i))
     \<and> (\<forall>i < NBUF. \<forall>j < NBUF. bkey (bufs s i) = bkey (bufs s j) \<longrightarrow> key_ok (bkey (bufs s i)) \<longrightarrow> i = j)"

lemma cache_ok_buf: "cache_ok s \<Longrightarrow> i < NBUF \<Longrightarrow> buf_ok (disk s) (bufs s i)"
  by (simp add: cache_ok_def)

lemma cache_ok_unique:
  "cache_ok s \<Longrightarrow> i < NBUF \<Longrightarrow> j < NBUF \<Longrightarrow> bkey (bufs s i) = bkey (bufs s j) \<Longrightarrow> key_ok (bkey (bufs s i)) \<Longrightarrow> i = j"
  unfolding cache_ok_def by blast

section \<open>The abstract cache\<close>

text \<open>The live buffer for a block.\<close>

definition lookup :: "'z bcache_st_scheme \<Rightarrow> bkey \<Rightarrow> buf option" where
  "lookup s k = map_option (bufs s) (List.find (\<lambda>i. live (bufs s i) \<and> bkey (bufs s i) = k) [0..<NBUF])"

text \<open>
  What clients see of the cache: the current contents of every block, the number of references
  to it, the process that has it locked, and the disk with the history of its writes.
\<close>

record acache =
  ac_data :: "bkey \<Rightarrow> block"
  ac_refs :: "bkey \<Rightarrow> u32"
  ac_lock :: "bkey \<Rightarrow> int option"
  ac_disk :: "bkey \<Rightarrow> block"
  ac_trace :: "(bkey \<times> block) list"

definition bc_abs :: "'z bcache_st_scheme \<Rightarrow> acache" where
  "bc_abs s = \<lparr>
     ac_data = (\<lambda>k. case lookup s k of Some b \<Rightarrow> if b_valid b then b_data b else disk s k | None \<Rightarrow> disk s k),
     ac_refs = (\<lambda>k. case lookup s k of Some b \<Rightarrow> b_refcnt b | None \<Rightarrow> 0),
     ac_lock = (\<lambda>k. case lookup s k of Some b \<Rightarrow> if sl_locked (b_lock b) then Some (sl_pid (b_lock b)) else None | None \<Rightarrow> None),
     ac_disk = disk s, ac_trace = dtrace s\<rparr>"

lemma bc_abs_disk [simp]: "ac_disk (bc_abs s) = disk s" "ac_trace (bc_abs s) = dtrace s"
  by (simp_all add: bc_abs_def)

definition a_bread :: "int \<Rightarrow> bkey \<Rightarrow> acache \<Rightarrow> acache" where
  "a_bread p k a = a\<lparr>ac_refs := (ac_refs a)(k := ac_refs a k + 1), ac_lock := (ac_lock a)(k \<mapsto> p)\<rparr>"

definition a_store :: "bkey \<Rightarrow> block \<Rightarrow> acache \<Rightarrow> acache" where
  "a_store k x a = a\<lparr>ac_data := (ac_data a)(k := x)\<rparr>"

definition a_bwrite :: "bkey \<Rightarrow> acache \<Rightarrow> acache" where
  "a_bwrite k a = a\<lparr>ac_disk := (ac_disk a)(k := ac_data a k), ac_trace := ac_trace a @ [(k, ac_data a k)]\<rparr>"

definition a_brelse :: "bkey \<Rightarrow> acache \<Rightarrow> acache" where
  "a_brelse k a = a\<lparr>ac_refs := (ac_refs a)(k := ac_refs a k - 1), ac_lock := (ac_lock a)(k := None)\<rparr>"

definition a_bpin :: "bkey \<Rightarrow> acache \<Rightarrow> acache" where
  "a_bpin k a = a\<lparr>ac_refs := (ac_refs a)(k := ac_refs a k + 1)\<rparr>"

definition a_bunpin :: "bkey \<Rightarrow> acache \<Rightarrow> acache" where
  "a_bunpin k a = a\<lparr>ac_refs := (ac_refs a)(k := ac_refs a k - 1)\<rparr>"

text \<open>The effect of writing a block, cache and disk.\<close>

definition put_block :: "bkey \<Rightarrow> block \<Rightarrow> acache \<Rightarrow> acache" where
  "put_block k x a = a\<lparr>ac_data := (ac_data a)(k := x), ac_disk := (ac_disk a)(k := x), ac_trace := ac_trace a @ [(k, x)]\<rparr>"

text \<open>A sequence of writes, on a disk and on the abstract cache.\<close>

definition writes :: "(bkey \<times> block) list \<Rightarrow> (bkey \<Rightarrow> block) \<Rightarrow> bkey \<Rightarrow> block" where
  "writes ws g = fold (\<lambda>(k, x) g. g(k := x)) ws g"

definition put_all :: "(bkey \<times> block) list \<Rightarrow> acache \<Rightarrow> acache" where
  "put_all ws a = a\<lparr>ac_data := writes ws (ac_data a), ac_disk := writes ws (ac_disk a), ac_trace := ac_trace a @ ws\<rparr>"

lemma writes_simps [simp]:
  "writes [] g = g" "writes (ws @ vs) g = writes vs (writes ws g)" "writes [(k, x)] g = g(k := x)"
  by (simp_all add: writes_def)

lemma writes_Cons: "writes ((k, x) # ws) g = writes ws (g(k := x))"
  by (simp add: writes_def)

lemma writes_other: "k \<notin> fst ` set ws \<Longrightarrow> writes ws g k = g k"
  unfolding writes_def by (induction ws arbitrary: g) auto

lemma writes_last:
  assumes "distinct (map fst ws)" and "(k, x) \<in> set ws"
  shows "writes ws g k = x"
proof -
  obtain us vs where ws: "ws = us @ (k, x) # vs" using assms(2) by (auto dest: split_list)
  then have "k \<notin> fst ` set vs" using assms(1) by auto
  moreover have "writes ws g = writes vs ((writes us g)(k := x))" using ws by (simp add: writes_def)
  ultimately show ?thesis by (simp add: writes_other)
qed

lemma put_all_simps [simp]:
  "put_all [] a = a" "put_all (ws @ [(k, x)]) a = put_block k x (put_all ws a)"
  "ac_refs (put_all ws a) = ac_refs a" "ac_lock (put_all ws a) = ac_lock a"
  "ac_data (put_all ws a) = writes ws (ac_data a)" "ac_disk (put_all ws a) = writes ws (ac_disk a)"
  "ac_trace (put_all ws a) = ac_trace a @ ws"
  by (simp_all add: put_all_def put_block_def)

lemma lookup_iff:
  assumes "cache_ok s"
  shows "lookup s k = Some b \<longleftrightarrow> (\<exists>i < NBUF. bufs s i = b \<and> live b \<and> bkey b = k)"
proof
  assume "lookup s k = Some b"
  then show "\<exists>i < NBUF. bufs s i = b \<and> live b \<and> bkey b = k"
    by (auto simp: lookup_def find_Some_iff)
next
  assume "\<exists>i < NBUF. bufs s i = b \<and> live b \<and> bkey b = k"
  then obtain i where i: "i < NBUF" "bufs s i = b" "live b" "bkey b = k" by blast
  obtain j where j: "List.find (\<lambda>i. live (bufs s i) \<and> bkey (bufs s i) = k) [0..<NBUF] = Some j"
    using i by (cases "List.find (\<lambda>i. live (bufs s i) \<and> bkey (bufs s i) = k) [0..<NBUF]") (auto simp: find_None_iff)
  then have "j < NBUF" "bkey (bufs s j) = k" by (auto simp: find_Some_iff)
  moreover have "key_ok (bkey b)" using cache_ok_buf [OF assms i(1)] i by (simp add: buf_ok_def)
  ultimately have "j = i" using cache_ok_unique [OF assms _ i(1)] i by metis
  with j i show "lookup s k = Some b" by (simp add: lookup_def)
qed

lemma lookup_None_iff:
  assumes "cache_ok s"
  shows "lookup s k = None \<longleftrightarrow> (\<forall>i < NBUF. live (bufs s i) \<longrightarrow> bkey (bufs s i) \<noteq> k)"
  by (cases "lookup s k") (use lookup_iff [OF assms, of k] in auto)

lemma upd_buf_simps [simp]:
  "bufs (upd_buf i f s) = (bufs s)(i := f (bufs s i))" "lru (upd_buf i f s) = lru s"
  "disk (upd_buf i f s) = disk s" "dtrace (upd_buf i f s) = dtrace s" "procs (upd_buf i f s) = procs s"
  "cur (upd_buf i f s) = cur s"
  by (simp_all add: upd_buf_def)

text \<open>Replacing one buffer by a live one.\<close>

lemma lookup_replace:
  assumes "cache_ok s" and "cache_ok s'" and "i < NBUF" and "bufs s' = (bufs s)(i := b)" and "live b"
  shows "lookup s' k = (if k = bkey b then Some b
     else if live (bufs s i) \<and> bkey (bufs s i) = k then None else lookup s k)"
proof (cases "lookup s' k")
  case None
  then have n: "live (((bufs s)(i := b)) j) \<longrightarrow> bkey (((bufs s)(i := b)) j) \<noteq> k" if "j < NBUF" for j
    using lookup_None_iff [OF assms(2)] assms(4) that by auto
  then have "k \<noteq> bkey b" using assms(3,5) by fastforce
  moreover have "lookup s k = None" if "\<not> (live (bufs s i) \<and> bkey (bufs s i) = k)"
    using n that unfolding lookup_None_iff [OF assms(1)] by (metis fun_upd_other)
  ultimately show ?thesis using None by simp
next
  case (Some c)
  then obtain j where j: "j < NBUF" "((bufs s)(i := b)) j = c" "live c" "bkey c = k"
    using lookup_iff [OF assms(2)] assms(4) by auto
  show ?thesis
  proof (cases "j = i")
    case True
    with j Some show ?thesis by simp
  next
    case False
    have b: "key_ok (bkey b)" using cache_ok_buf [OF assms(2,3)] assms(4,5) by (simp add: buf_ok_def)
    have "k \<noteq> bkey b"
      using cache_ok_unique [OF assms(2) assms(3) j(1)] b False j assms(4) by auto
    moreover have "\<not> (live (bufs s i) \<and> bkey (bufs s i) = k)"
      using cache_ok_unique [OF assms(1,3) j(1)] cache_ok_buf [OF assms(1,3)] False j by (auto simp: buf_ok_def)
    moreover have "lookup s k = Some c" using j False by (auto simp: lookup_iff [OF assms(1)])
    ultimately show ?thesis using Some by simp
  qed
qed

section \<open>Frames\<close>

text \<open>
  The cache operations write the cache, the disk and its history, and wake processes up: states
  with these blanked out are the same.
\<close>

definition bc_blank :: "'z bcache_st_scheme \<Rightarrow> 'z bcache_st_scheme" where
  "bc_blank s = s\<lparr>procs := undefined, bufs := undefined, lru := undefined, disk := undefined, dtrace := undefined\<rparr>"

definition bc_only :: "'z bcache_st_scheme \<Rightarrow> 'z bcache_st_scheme \<Rightarrow> bool" where
  "bc_only s s' \<longleftrightarrow> woken (procs s) (procs s') \<and> bc_blank s' = bc_blank s"

lemma bc_only_refl [simp]: "bc_only s s"
  by (simp add: bc_only_def)

lemma bc_only_trans: "bc_only r s \<Longrightarrow> bc_only s t \<Longrightarrow> bc_only r t"
  unfolding bc_only_def using woken_trans by metis

lemma bc_only_proc_fields:
  assumes "bc_only s s'"
  shows "nextpid s' = nextpid s" "initproc s' = initproc s" "cur s' = cur s" "forkret_addr s' = forkret_addr s"
    "mem s' = mem s" "freelist s' = freelist s" "kend s' = kend s"
proof -
  have e: "bc_blank s' = bc_blank s" using assms by (simp add: bc_only_def)
  show "nextpid s' = nextpid s" using arg_cong [OF e, of nextpid] by (simp add: bc_blank_def)
  show "initproc s' = initproc s" using arg_cong [OF e, of initproc] by (simp add: bc_blank_def)
  show "cur s' = cur s" using arg_cong [OF e, of cur] by (simp add: bc_blank_def)
  show "forkret_addr s' = forkret_addr s" using arg_cong [OF e, of forkret_addr] by (simp add: bc_blank_def)
  show "mem s' = mem s" using arg_cong [OF e, of mem] by (simp add: bc_blank_def)
  show "freelist s' = freelist s" using arg_cong [OF e, of freelist] by (simp add: bc_blank_def)
  show "kend s' = kend s" using arg_cong [OF e, of kend] by (simp add: bc_blank_def)
qed

lemma bc_only_woken: "bc_only s s' \<Longrightarrow> woken (procs s) (procs s')"
  by (simp add: bc_only_def)

text \<open>\<open>running s p\<close>: a process with pid \<open>p\<close> is running.\<close>

definition running :: "'z proc_st_scheme \<Rightarrow> int \<Rightarrow> bool" where
  "running s p \<longleftrightarrow> (\<exists>me. cur s = Some me \<and> p_pid (procs s me) = p)"

lemma running_bc_only: "bc_only s s' \<Longrightarrow> running s p \<Longrightarrow> running s' p"
  by (auto simp: running_def bc_only_proc_fields woken_pid [OF bc_only_woken])

lemma bc_only_upd_buf [simp]: "bc_only s (upd_buf i f s)"
  by (simp add: bc_only_def bc_blank_def upd_buf_def)

lemma bc_only_lru [simp]: "bc_only s (s\<lparr>lru := l\<rparr>)"
  by (simp add: bc_only_def bc_blank_def)

lemma bc_only_disk [simp]: "bc_only s (s\<lparr>disk := d, dtrace := t\<rparr>)"
  by (simp add: bc_only_def bc_blank_def)

lemma fold_procs_only:
  assumes "\<And>i s. \<exists>P. f i s = s\<lparr>procs := P\<rparr>"
  shows "\<exists>P. fold f is s = s\<lparr>procs := P\<rparr>"
proof (induction "is" arbitrary: s)
  case Nil
  have "s = s\<lparr>procs := procs s\<rparr>" by simp
  then show ?case unfolding fold_simps id_apply by blast
next
  case (Cons i "is")
  obtain P where "f i s = s\<lparr>procs := P\<rparr>" using assms by blast
  moreover obtain Q where "fold f is (s\<lparr>procs := P\<rparr>) = (s\<lparr>procs := P\<rparr>)\<lparr>procs := Q\<rparr>" using Cons by blast
  ultimately show ?case by auto
qed

lemma wakeup_procs_only: "\<exists>P. wakeup ch s = s\<lparr>procs := P\<rparr>"
proof -
  have "\<exists>P. (if b then upd_proc i f s else s) = s\<lparr>procs := P\<rparr>" for b i f s
    by (cases b) (auto simp: upd_proc_def intro: exI [of _ "procs s"])
  then show ?thesis unfolding wakeup_def by (intro fold_procs_only)
qed

lemma wakeup_is_upd: "wakeup ch s = s\<lparr>procs := procs (wakeup ch s)\<rparr>"
  using wakeup_procs_only [of ch s] by auto

lemma bc_only_wakeup [simp]: "bc_only s (wakeup ch s)"
  unfolding bc_only_def bc_blank_def by (subst (2) wakeup_is_upd) (simp add: woken_wakeup)

lemma wakeup_cache [simp]:
  "bufs (wakeup ch s) = bufs s" "lru (wakeup ch s) = lru s" "disk (wakeup ch s) = disk s" "dtrace (wakeup ch s) = dtrace s"
  by (subst wakeup_is_upd, simp)+

section \<open>The operations refine those of the abstract cache\<close>

text \<open>
  When \<open>bread\<close> returns at once: the block is not locked, no unreferenced block is, and the
  block is referenced already or fewer than \<open>NBUF\<close> blocks are.
\<close>

definition can_bread :: "bkey \<Rightarrow> acache \<Rightarrow> bool" where
  "can_bread k a \<longleftrightarrow> key_ok k \<and> ac_lock a k = None \<and> ac_refs a k + 1 \<noteq> 0
     \<and> (\<forall>j. ac_refs a j = 0 \<longrightarrow> ac_lock a j = None) \<and> (ac_refs a k \<noteq> 0 \<or> card {j. ac_refs a j \<noteq> 0} < NBUF)"

lemma can_bread_unlocked: "can_bread k a \<Longrightarrow> ac_refs a j = 0 \<Longrightarrow> ac_lock a j = None"
  unfolding can_bread_def by blast

lemma lookup_index: "cache_ok s \<Longrightarrow> i < NBUF \<Longrightarrow> live (bufs s i) \<Longrightarrow> lookup s (bkey (bufs s i)) = Some (bufs s i)"
  by (auto simp: lookup_iff)

lemma lookup_dead: "cache_ok s \<Longrightarrow> i < NBUF \<Longrightarrow> key_ok (bkey (bufs s i)) \<Longrightarrow> \<not> live (bufs s i) \<Longrightarrow>
   lookup s (bkey (bufs s i)) = None"
  by (metis lookup_None_iff cache_ok_unique)

lemma refs_index: "cache_ok s \<Longrightarrow> i < NBUF \<Longrightarrow> key_ok (bkey (bufs s i)) \<Longrightarrow>
   ac_refs (bc_abs s) (bkey (bufs s i)) = b_refcnt (bufs s i)"
  by (cases "live (bufs s i)") (auto simp: bc_abs_def lookup_index lookup_dead live_def)

lemma lock_index: "cache_ok s \<Longrightarrow> i < NBUF \<Longrightarrow> sl_locked (b_lock (bufs s i)) \<Longrightarrow>
   ac_lock (bc_abs s) (bkey (bufs s i)) = Some (sl_pid (b_lock (bufs s i))) \<and> key_ok (bkey (bufs s i))"
  using cache_ok_buf [of s i] by (auto simp: bc_abs_def buf_ok_def live_def lookup_index)

lemma free_buffer:
  assumes "cache_ok s" and "card {k. ac_refs (bc_abs s) k \<noteq> 0} < NBUF"
  shows "\<exists>i < NBUF. b_refcnt (bufs s i) = 0"
proof (rule ccontr)
  let ?f = "\<lambda>i. bkey (bufs s i)" and ?R = "{k. ac_refs (bc_abs s) k \<noteq> 0}"
  assume "\<not> ?thesis"
  then have n: "b_refcnt (bufs s i) \<noteq> 0" if "i < NBUF" for i using that by blast
  then have l: "live (bufs s i)" "key_ok (?f i)" if "i < NBUF" for i
    using that cache_ok_buf [OF assms(1) that] by (auto simp: live_def buf_ok_def)
  have inj: "inj_on ?f {..<NBUF}" using cache_ok_unique [OF assms(1)] l(2) by (intro inj_onI) auto
  have "?R \<subseteq> ?f ` {..<NBUF}"
  proof
    fix k assume "k \<in> ?R"
    then obtain b where "lookup s k = Some b" by (auto simp: bc_abs_def split: option.splits)
    then show "k \<in> ?f ` {..<NBUF}" unfolding lookup_iff [OF assms(1)] by blast
  qed
  then have "finite ?R" by (rule finite_subset) simp
  moreover have "?f ` {..<NBUF} \<subseteq> ?R" using n l(2) refs_index [OF assms(1)] by auto
  ultimately have "card (?f ` {..<NBUF}) \<le> card ?R" by (rule card_mono)
  with card_image [OF inj] assms(2) show False by simp
qed

lemma lock_buf_done:
  assumes "running s p" and "\<not> sl_locked (b_lock (bufs s i))"
  shows "lock_buf i s = Done i (upd_buf i (\<lambda>b. b\<lparr>b_lock := (b_lock b)\<lparr>sl_locked := True, sl_pid := p\<rparr>\<rparr>) s)"
  using assms by (auto simp: lock_buf_def acquiresleep_def with_proc_def running_def upd_buf_def)

lemma upd_buf_upd_buf: "upd_buf i f (upd_buf i g s) = upd_buf i (\<lambda>b. f (g b)) s"
  by (simp add: upd_buf_def)

text \<open>The buffer that \<open>bread\<close> returns: it held the block already, or it is recycled.\<close>

definition read_buf :: "'z bcache_st_scheme \<Rightarrow> int \<Rightarrow> bkey \<Rightarrow> nat \<Rightarrow> buf \<Rightarrow> bool" where
  "read_buf s p k i b \<longleftrightarrow> i < NBUF \<and> bkey b = k \<and> b_valid b \<and> b_refcnt b = b_refcnt (bufs s i) + 1
     \<and> sl_locked (b_lock b) \<and> sl_pid (b_lock b) = p \<and> \<not> sl_locked (b_lock (bufs s i)) \<and> b_data b = ac_data (bc_abs s) k
     \<and> (bkey (bufs s i) = k \<or> b_refcnt (bufs s i) = 0 \<and> (\<forall>j < NBUF. bkey (bufs s j) \<noteq> k))"

lemma data_index: "cache_ok s \<Longrightarrow> i < NBUF \<Longrightarrow> key_ok (bkey (bufs s i)) \<Longrightarrow>
   ac_data (bc_abs s) (bkey (bufs s i)) = (if b_valid (bufs s i) then b_data (bufs s i) else disk s (bkey (bufs s i)))"
  by (cases "live (bufs s i)") (auto simp: bc_abs_def lookup_index lookup_dead live_def)

lemma bread_hit:
  assumes "running s p" and "cache_ok s" and "key_ok (d, bn)" and "ac_lock (bc_abs s) (d, bn) = None"
    and "i < NBUF" and "bkey (bufs s i) = (d, bn)"
  shows "\<exists>b. read_buf s p (d, bn) i b \<and> bread d bn s = Done i (upd_buf i (\<lambda>_. b) s)"
proof -
  obtain xs where xs: "lru_list (lru s) xs" using assms(2) by (auto simp: cache_ok_def)
  have k: "key_ok (bkey (bufs s i))" using assms by simp
  have "List.find (\<lambda>i. b_dev (bufs s i) = d \<and> b_blockno (bufs s i) = bn) xs = Some i"
  proof -
    have "i \<in> set xs" using xs assms(5) by (simp add: lru_list_def)
    then obtain j where j: "List.find (\<lambda>i. b_dev (bufs s i) = d \<and> b_blockno (bufs s i) = bn) xs = Some j"
      using assms(6) by (cases "List.find (\<lambda>i. b_dev (bufs s i) = d \<and> b_blockno (bufs s i) = bn) xs")
        (auto simp: find_None_iff bkey_def)
    then have "j < NBUF" "bkey (bufs s j) = (d, bn)" using xs by (auto simp: find_Some_iff bkey_def lru_list_def)
    with assms k have "j = i" by (metis cache_ok_unique)
    with j show ?thesis by simp
  qed
  moreover have u: "\<not> sl_locked (b_lock (bufs s i))"
    using lock_index [OF assms(2,5)] assms(4,6) by auto
  ultimately have g: "bget d bn s = Done i (upd_buf i (\<lambda>b. b\<lparr>b_refcnt := b_refcnt b + 1,
      b_lock := (b_lock b)\<lparr>sl_locked := True, sl_pid := p\<rparr>\<rparr>) s)"
    using lock_buf_done [of "upd_buf i (\<lambda>b. b\<lparr>b_refcnt := b_refcnt b + 1\<rparr>) s" p i] assms(1)
    by (simp add: bget_def lru_list_scan [OF xs] upd_buf_upd_buf running_def)
  let ?b = "(bufs s i)\<lparr>b_refcnt := b_refcnt (bufs s i) + 1, b_lock := (b_lock (bufs s i))\<lparr>sl_locked := True, sl_pid := p\<rparr>\<rparr>"
  show ?thesis
  proof (cases "b_valid (bufs s i)")
    case True
    then have "read_buf s p (d, bn) i ?b"
      using assms(5,6) data_index [OF assms(2,5) k] u by (simp add: read_buf_def bkey_def)
    with True g show ?thesis by (auto simp: bread_def upd_buf_def)
  next
    case False
    let ?c = "?b\<lparr>b_data := disk s (d, bn), b_disk := False, b_valid := True\<rparr>"
    have "read_buf s p (d, bn) i ?c"
      using False assms(5,6) data_index [OF assms(2,5) k] u by (simp add: read_buf_def bkey_def)
    moreover have "bread d bn s = Done i (upd_buf i (\<lambda>_. ?c) s)"
      using False g assms(6) k by (simp add: bread_def disk_rw_def key_ok_def dblock_id bkey_def upd_buf_def not_le)
    ultimately show ?thesis by blast
  qed
qed

lemma bread_miss:
  assumes "running s p" and "cache_ok s" and "can_bread (d, bn) (bc_abs s)" and "\<And>i. i < NBUF \<Longrightarrow> bkey (bufs s i) \<noteq> (d, bn)"
  shows "\<exists>i b. read_buf s p (d, bn) i b \<and> bread d bn s = Done i (upd_buf i (\<lambda>_. b) s)"
proof -
  obtain xs where xs: "lru_list (lru s) xs" using assms(2) by (auto simp: cache_ok_def)
  then have set_xs: "set xs = {..<NBUF}" by (simp add: lru_list_def)
  have nolook: "lookup s (d, bn) = None" using assms(2,4) by (simp add: lookup_None_iff)
  then have "ac_refs (bc_abs s) (d, bn) = 0" by (simp add: bc_abs_def)
  with assms(3) obtain j where "j < NBUF" "b_refcnt (bufs s j) = 0"
    using free_buffer [OF assms(2)] by (auto simp: can_bread_def)
  then obtain i where i: "List.find (\<lambda>i. b_refcnt (bufs s i) = 0) (rev xs) = Some i"
    using set_xs by (cases "List.find (\<lambda>i. b_refcnt (bufs s i) = 0) (rev xs)") (auto simp: find_None_iff)
  from find_in_set [OF this] have lt: "i < NBUF" and ref: "b_refcnt (bufs s i) = 0" using set_xs by auto
  have u: "\<not> sl_locked (b_lock (bufs s i))"
    using lock_index [OF assms(2) lt] refs_index [OF assms(2) lt] can_bread_unlocked [OF assms(3)] ref by fastforce
  have "List.find (\<lambda>i. b_dev (bufs s i) = d \<and> b_blockno (bufs s i) = bn) xs = None"
    using assms(4) set_xs by (auto simp: find_None_iff bkey_def)
  then have g: "bget d bn s = Done i (upd_buf i (\<lambda>b. b\<lparr>b_dev := d, b_blockno := bn, b_valid := False, b_refcnt := 1,
      b_lock := (b_lock b)\<lparr>sl_locked := True, sl_pid := p\<rparr>\<rparr>) s)"
    using lock_buf_done [of "upd_buf i (\<lambda>b. b\<lparr>b_dev := d, b_blockno := bn, b_valid := False, b_refcnt := 1\<rparr>) s" p i] assms(1) i u
    by (simp add: bget_def lru_list_scan [OF xs] upd_buf_upd_buf running_def)
  let ?c = "(bufs s i)\<lparr>b_dev := d, b_blockno := bn, b_valid := False, b_refcnt := 1,
     b_lock := (b_lock (bufs s i))\<lparr>sl_locked := True, sl_pid := p\<rparr>, b_data := disk s (d, bn), b_disk := False, b_valid := True\<rparr>"
  have "read_buf s p (d, bn) i ?c"
    using lt u ref assms(4) nolook by (simp add: read_buf_def bkey_def bc_abs_def)
  moreover have "bread d bn s = Done i (upd_buf i (\<lambda>_. ?c) s)"
    using g assms(3) by (simp add: bread_def disk_rw_def can_bread_def key_ok_def dblock_id upd_buf_def not_le)
  ultimately show ?thesis by blast
qed

lemma bread_done:
  assumes "running s p" and "cache_ok s" and "can_bread (d, bn) (bc_abs s)"
  shows "\<exists>i b. read_buf s p (d, bn) i b \<and> bread d bn s = Done i (upd_buf i (\<lambda>_. b) s)"
  using bread_hit [OF assms(1,2)] bread_miss [OF assms] assms(3) unfolding can_bread_def by blast

lemma cache_ok_replace:
  assumes "cache_ok s" and "buf_ok (disk s) b" and "bkey (bufs s i) = bkey b \<or> (\<forall>j < NBUF. bkey (bufs s j) \<noteq> bkey b)"
  shows "cache_ok (upd_buf i (\<lambda>_. b) s)"
  using assms unfolding cache_ok_def by (auto; metis)

text \<open>\<open>handle s i k\<close>: buffer \<open>i\<close> holds the valid contents of block \<open>k\<close>.\<close>

definition handle :: "'z bcache_st_scheme \<Rightarrow> nat \<Rightarrow> bkey \<Rightarrow> bool" where
  "handle s i k \<longleftrightarrow> i < NBUF \<and> bkey (bufs s i) = k \<and> b_valid (bufs s i) \<and> key_ok k"

lemma handle_index:
  assumes "cache_ok s" and "handle s i k"
  shows "ac_data (bc_abs s) k = b_data (bufs s i)" "ac_refs (bc_abs s) k = b_refcnt (bufs s i)"
    "ac_lock (bc_abs s) k = (if sl_locked (b_lock (bufs s i)) then Some (sl_pid (b_lock (bufs s i))) else None)"
  using assms by (auto simp: handle_def bc_abs_def lookup_index live_def)

text \<open>Changing a valid buffer changes the entry of its block.\<close>

lemma bc_abs_modify:
  assumes "cache_ok s" and "handle s i k" and "bufs s' = (bufs s)(i := b)" and "disk s' = disk s" and "dtrace s' = dtrace s"
    and "cache_ok s'" and "bkey b = k" and "b_valid b"
  shows "bc_abs s' = bc_abs s\<lparr>ac_data := (ac_data (bc_abs s))(k := b_data b), ac_refs := (ac_refs (bc_abs s))(k := b_refcnt b),
     ac_lock := (ac_lock (bc_abs s))(k := if sl_locked (b_lock b) then Some (sl_pid (b_lock b)) else None)\<rparr>"
proof -
  have i: "i < NBUF" "bkey (bufs s i) = k" using assms(2) by (auto simp: handle_def)
  have "lookup s' = (lookup s)(k := Some b)"
    using lookup_replace [OF assms(1,6) i(1) assms(3)] i(2) assms(7,8) by (auto simp: live_def fun_eq_iff)
  then show ?thesis by (auto simp: bc_abs_def assms(4,5) fun_eq_iff \<open>b_valid b\<close> split: option.split)
qed

lemma bread_refines:
  assumes "running s p" and "cache_ok s" and "can_bread (d, bn) (bc_abs s)"
  shows "\<exists>i b. bread d bn s = Done i (upd_buf i (\<lambda>_. b) s) \<and> handle (upd_buf i (\<lambda>_. b) s) i (d, bn)
     \<and> cache_ok (upd_buf i (\<lambda>_. b) s) \<and> bc_abs (upd_buf i (\<lambda>_. b) s) = a_bread p (d, bn) (bc_abs s)
     \<and> (bkey (bufs s i) = (d, bn) \<or> b_refcnt (bufs s i) = 0)"
proof -
  obtain i b where b: "read_buf s p (d, bn) i b" "bread d bn s = Done i (upd_buf i (\<lambda>_. b) s)"
    using bread_done [OF assms] by blast
  let ?s = "upd_buf i (\<lambda>_. b) s"
  have i: "i < NBUF" and v: "b_valid b" "bkey b = (d, bn)" and k: "key_ok (d, bn)"
    using b(1) assms(3) by (auto simp: read_buf_def can_bread_def)
  have ref: "b_refcnt (bufs s i) = ac_refs (bc_abs s) (d, bn)"
  proof (cases "bkey (bufs s i) = (d, bn)")
    case True
    then show ?thesis using refs_index [OF assms(2) i] k by simp
  next
    case False
    then have "lookup s (d, bn) = None" using b(1) by (simp add: lookup_None_iff [OF assms(2)] read_buf_def)
    then show ?thesis using False b(1) by (auto simp: read_buf_def bc_abs_def)
  qed
  have ok: "cache_ok ?s"
    using b(1) assms(3) k ref by (intro cache_ok_replace [OF assms(2)]) (auto simp: buf_ok_def read_buf_def can_bread_def)
  have old: "buf_ok (disk s) (bufs s i)" using cache_ok_buf [OF assms(2) i] .
  have "bc_abs ?s = a_bread p (d, bn) (bc_abs s)"
  proof -
    have look: "lookup ?s x = (if x = (d, bn) then Some b
        else if live (bufs s i) \<and> bkey (bufs s i) = x then None else lookup s x)" for x
      using lookup_replace [OF assms(2) ok i, of b x] v by (simp add: live_def)
    have gone: "lookup s x = Some (bufs s i)" "b_refcnt (bufs s i) = 0" "\<not> sl_locked (b_lock (bufs s i))"
      if "x \<noteq> (d, bn)" "live (bufs s i)" "bkey (bufs s i) = x" for x
      using that b(1) lookup_index [OF assms(2) i] by (auto simp: read_buf_def)
    have new: "ac_data (bc_abs ?s) (d, bn) = b_data b" "ac_refs (bc_abs ?s) (d, bn) = b_refcnt b"
      "ac_lock (bc_abs ?s) (d, bn) = Some p"
      using look [of "(d, bn)"] v b(1) by (simp_all add: bc_abs_def read_buf_def)
    have same: "ac_data (bc_abs ?s) x = ac_data (bc_abs s) x \<and> ac_refs (bc_abs ?s) x = ac_refs (bc_abs s) x
      \<and> ac_lock (bc_abs ?s) x = ac_lock (bc_abs s) x" if x: "x \<noteq> (d, bn)" for x
    proof (cases "live (bufs s i) \<and> bkey (bufs s i) = x")
      case True
      then have "lookup ?s x = None" using look [of x] x by simp
      then show ?thesis using gone [OF x] True old by (auto simp: bc_abs_def buf_ok_def)
    next
      case False
      then have "lookup ?s x = lookup s x" using look [of x] x by auto
      then show ?thesis by (simp add: bc_abs_def split: option.split)
    qed
    have "ac_data (bc_abs ?s) x = ac_data (bc_abs s) x"
      and "ac_refs (bc_abs ?s) x = (if x = (d, bn) then ac_refs (bc_abs s) x + 1 else ac_refs (bc_abs s) x)"
      and "ac_lock (bc_abs ?s) x = (if x = (d, bn) then Some p else ac_lock (bc_abs s) x)" for x
      using new same [of x] b(1) ref by (cases "x = (d, bn)"; simp add: read_buf_def)+
    then show ?thesis
      unfolding a_bread_def by (intro acache.equality ext) simp_all
  qed
  then show ?thesis using b ok i v k by (auto simp: handle_def read_buf_def)
qed

text \<open>Storing into \<open>b->data\<close>, which clients do directly.\<close>

definition set_data :: "nat \<Rightarrow> block \<Rightarrow> 'z bcache_st_scheme \<Rightarrow> 'z bcache_st_scheme" where
  "set_data i x s = upd_buf i (\<lambda>b. b\<lparr>b_data := x\<rparr>) s"

text \<open>
  A step of the cache: it goes from a good state to a good state, does to the abstract cache
  what \<open>f\<close> does, and changes nothing else; the handles of the blocks in \<open>H\<close> stay good.
\<close>

definition cache_step :: "bkey set \<Rightarrow> (acache \<Rightarrow> acache) \<Rightarrow> 'z bcache_st_scheme \<Rightarrow> 'z bcache_st_scheme \<Rightarrow> bool" where
  "cache_step H f s s' \<longleftrightarrow> cache_ok s' \<and> bc_abs s' = f (bc_abs s) \<and> bc_only s s'
     \<and> (\<forall>j. \<forall>k \<in> H. handle s j k \<longrightarrow> handle s' j k)"

lemma bread_spec:
  assumes "running s p" and "cache_ok s" and "can_bread (d, bn) (bc_abs s)"
  shows "\<exists>i s'. bread d bn s = Done i s' \<and> handle s' i (d, bn) \<and> cache_step {k. ac_refs (bc_abs s) k \<noteq> 0} (a_bread p (d, bn)) s s'"
proof -
  obtain i b where b: "bread d bn s = Done i (upd_buf i (\<lambda>_. b) s)" "handle (upd_buf i (\<lambda>_. b) s) i (d, bn)"
      "cache_ok (upd_buf i (\<lambda>_. b) s)" "bc_abs (upd_buf i (\<lambda>_. b) s) = a_bread p (d, bn) (bc_abs s)"
      "bkey (bufs s i) = (d, bn) \<or> b_refcnt (bufs s i) = 0"
    using bread_refines [OF assms] by blast
  have "handle (upd_buf i (\<lambda>_. b) s) j k" if "handle s j k" "ac_refs (bc_abs s) k \<noteq> 0" for j k
  proof (cases "j = i")
    case True
    then have "k = (d, bn)" using that b(5) handle_index [OF assms(2) that(1)] by (auto simp: handle_def)
    with b(2) True show ?thesis by simp
  next
    case False
    with that show ?thesis by (simp add: handle_def)
  qed
  with b show ?thesis by (auto simp: cache_step_def)
qed

lemma cache_step_modify:
  assumes "cache_ok s" and "handle s i k" and "bufs s' = (bufs s)(i := b)" and "disk s' = disk s" and "dtrace s' = dtrace s"
    and "\<exists>xs. lru_list (lru s') xs" and "bc_only s s'"
    and "bkey b = k" and "b_valid b" and "b_refcnt b = 0 \<Longrightarrow> b_data b = disk s k"
    and "f (bc_abs s) = bc_abs s\<lparr>ac_data := (ac_data (bc_abs s))(k := b_data b), ac_refs := (ac_refs (bc_abs s))(k := b_refcnt b),
     ac_lock := (ac_lock (bc_abs s))(k := if sl_locked (b_lock b) then Some (sl_pid (b_lock b)) else None)\<rparr>"
  shows "cache_step UNIV f s s'"
proof -
  have i: "i < NBUF" "bkey (bufs s i) = k" "key_ok k" using assms(2) by (auto simp: handle_def)
  have "cache_ok (upd_buf i (\<lambda>_. b) s)"
    using i assms(8-10) by (intro cache_ok_replace [OF assms(1)]) (auto simp: buf_ok_def)
  then have ok: "cache_ok s'" using assms(3-6) by (simp add: cache_ok_def)
  moreover have "bc_abs s' = f (bc_abs s)"
    unfolding assms(11) by (rule bc_abs_modify [OF assms(1-5) ok assms(8,9)])
  moreover have "handle s' j l" if "handle s j l" for j l
    using that i assms(3,8,9) by (auto simp: handle_def)
  ultimately show ?thesis using assms(7) by (simp add: cache_step_def)
qed

lemma cache_ok_lru: "cache_ok s \<Longrightarrow> \<exists>xs. lru_list (lru s) xs"
  by (simp add: cache_ok_def)

lemma set_data_spec:
  assumes "cache_ok s" and "handle s i k" and "ac_refs (bc_abs s) k \<noteq> 0"
  shows "cache_step UNIV (a_store k x) s (set_data i x s)"
proof (rule cache_step_modify [OF assms(1,2), of _ "(bufs s i)\<lparr>b_data := x\<rparr>"])
  show "a_store k x (bc_abs s) = bc_abs s\<lparr>ac_data := (ac_data (bc_abs s))(k := b_data ((bufs s i)\<lparr>b_data := x\<rparr>)),
      ac_refs := (ac_refs (bc_abs s))(k := b_refcnt ((bufs s i)\<lparr>b_data := x\<rparr>)),
     ac_lock := (ac_lock (bc_abs s))(k := if sl_locked (b_lock ((bufs s i)\<lparr>b_data := x\<rparr>))
        then Some (sl_pid (b_lock ((bufs s i)\<lparr>b_data := x\<rparr>))) else None)\<rparr>"
    using handle_index [OF assms(1,2)] by (simp add: a_store_def fun_upd_idem)
qed (use assms cache_ok_lru [OF assms(1)] handle_index [OF assms(1,2)] in \<open>auto simp: set_data_def handle_def bkey_def\<close>)

lemma set_refs_spec:
  assumes "cache_ok s" and "handle s i k" and "n = 0 \<Longrightarrow> ac_data (bc_abs s) k = disk s k"
  shows "cache_step UNIV (\<lambda>a. a\<lparr>ac_refs := (ac_refs a)(k := n)\<rparr>) s (upd_buf i (\<lambda>b. b\<lparr>b_refcnt := n\<rparr>) s)"
proof (rule cache_step_modify [OF assms(1,2), of _ "(bufs s i)\<lparr>b_refcnt := n\<rparr>"])
  show "bc_abs s\<lparr>ac_refs := (ac_refs (bc_abs s))(k := n)\<rparr> =
      bc_abs s\<lparr>ac_data := (ac_data (bc_abs s))(k := b_data ((bufs s i)\<lparr>b_refcnt := n\<rparr>)),
      ac_refs := (ac_refs (bc_abs s))(k := b_refcnt ((bufs s i)\<lparr>b_refcnt := n\<rparr>)),
     ac_lock := (ac_lock (bc_abs s))(k := if sl_locked (b_lock ((bufs s i)\<lparr>b_refcnt := n\<rparr>))
        then Some (sl_pid (b_lock ((bufs s i)\<lparr>b_refcnt := n\<rparr>))) else None)\<rparr>"
    using handle_index [OF assms(1,2)] by (simp add: fun_upd_idem)
qed (use assms cache_ok_lru [OF assms(1)] handle_index [OF assms(1,2)] in \<open>auto simp: handle_def bkey_def\<close>)

lemma bpin_spec:
  assumes "cache_ok s" and "handle s i k" and "ac_refs (bc_abs s) k + 1 \<noteq> 0"
  shows "cache_step UNIV (a_bpin k) s (bpin i s)"
proof -
  have "bpin i s = upd_buf i (\<lambda>b. b\<lparr>b_refcnt := ac_refs (bc_abs s) k + 1\<rparr>) s"
    using handle_index [OF assms(1,2)] by (simp add: bpin_def upd_buf_def)
  with set_refs_spec [OF assms(1,2)] assms(3) show ?thesis by (simp add: cache_step_def a_bpin_def)
qed

lemma bunpin_spec:
  assumes "cache_ok s" and "handle s i k" and "ac_refs (bc_abs s) k = 1 \<Longrightarrow> ac_data (bc_abs s) k = ac_disk (bc_abs s) k"
  shows "cache_step UNIV (a_bunpin k) s (bunpin i s)"
proof -
  have "bunpin i s = upd_buf i (\<lambda>b. b\<lparr>b_refcnt := ac_refs (bc_abs s) k - 1\<rparr>) s"
    using handle_index [OF assms(1,2)] by (simp add: bunpin_def upd_buf_def)
  moreover have "ac_refs (bc_abs s) k - 1 = 0 \<Longrightarrow> ac_data (bc_abs s) k = disk s k" using assms(3) by simp
  from set_refs_spec [OF assms(1,2) this]
  have "cache_step UNIV (a_bunpin k) s (upd_buf i (\<lambda>b. b\<lparr>b_refcnt := ac_refs (bc_abs s) k - 1\<rparr>) s)"
    unfolding cache_step_def a_bunpin_def .
  ultimately show ?thesis by simp
qed

lemma holdingsleep_handle:
  assumes "running s p" and "cache_ok s" and "handle s i k" and "ac_lock (bc_abs s) k = Some p"
  shows "holdingsleep (\<lambda>s. b_lock (bufs s i)) s = Done True s"
  using assms(1,4) handle_index(3) [OF assms(2,3)]
  by (auto simp: holdingsleep_def with_proc_def running_def split: if_splits)

lemma bwrite_spec:
  assumes "running s p" and "cache_ok s" and "handle s i k" and "ac_lock (bc_abs s) k = Some p" and "ac_refs (bc_abs s) k \<noteq> 0"
  shows "\<exists>s'. bwrite i s = Done () s' \<and> cache_step UNIV (a_bwrite k) s s'"
proof -
  let ?x = "b_data (bufs s i)"
  let ?s = "(upd_buf i (\<lambda>b. b\<lparr>b_disk := False\<rparr>) s)\<lparr>disk := (disk s)(k := ?x), dtrace := dtrace s @ [(k, ?x)]\<rparr>"
  have i: "i < NBUF" "bkey (bufs s i) = k" "key_ok k" "b_valid (bufs s i)" using assms(3) by (auto simp: handle_def)
  note ix = handle_index [OF assms(2,3)]
  have "bwrite i s = Done () ?s"
    using holdingsleep_handle [OF assms(1-4)] i
    by (auto simp: bwrite_def disk_rw_def bkey_def key_ok_def dblock_id not_le Let_def)
  moreover have ok: "cache_ok ?s"
  proof -
    have "buf_ok (disk ?s) (bufs ?s j)" if "j < NBUF" for j
    proof (cases "j = i")
      case True
      then show ?thesis using cache_ok_buf [OF assms(2) that] i by (auto simp: buf_ok_def live_def bkey_def)
    next
      case False
      moreover have "key_ok (bkey (bufs s j)) \<longrightarrow> bkey (bufs s j) \<noteq> k"
        using cache_ok_unique [OF assms(2) that i(1)] i(2) False by auto
      ultimately show ?thesis using cache_ok_buf [OF assms(2) that] by (auto simp: buf_ok_def live_def)
    qed
    moreover have "bkey (bufs ?s j) = bkey (bufs s j)" for j by (simp add: bkey_def)
    moreover have "\<exists>xs. lru_list (lru ?s) xs" using cache_ok_lru [OF assms(2)] by simp
    ultimately show ?thesis using cache_ok_unique [OF assms(2)] unfolding cache_ok_def by presburger
  qed
  moreover have "bc_abs ?s = a_bwrite k (bc_abs s)"
  proof -
    let ?b = "(bufs s i)\<lparr>b_disk := False\<rparr>"
    have "lookup ?s l = (if l = k then Some ?b else lookup s l)" for l
      using lookup_replace [OF assms(2) ok i(1), of ?b l] i by (auto simp: live_def bkey_def)
    then have "ac_data (bc_abs ?s) l = ac_data (bc_abs s) l \<and> ac_refs (bc_abs ?s) l = ac_refs (bc_abs s) l
       \<and> ac_lock (bc_abs ?s) l = ac_lock (bc_abs s) l" for l
      using ix i by (cases "l = k") (simp_all add: bc_abs_def split: option.split)
    then show ?thesis unfolding a_bwrite_def using ix by (intro acache.equality ext) simp_all
  qed
  moreover have "bc_only s ?s" by (rule bc_only_trans [OF bc_only_upd_buf bc_only_disk])
  moreover have "handle ?s j l" if "handle s j l" for j l
    using that by (auto simp: handle_def bkey_def)
  ultimately show ?thesis by (auto simp: cache_step_def)
qed

lemma brelse_spec:
  assumes "running s p" and "cache_ok s" and "handle s i k" and "ac_lock (bc_abs s) k = Some p"
    and "ac_refs (bc_abs s) k = 1 \<Longrightarrow> ac_data (bc_abs s) k = ac_disk (bc_abs s) k"
  shows "\<exists>s'. brelse i s = Done () s' \<and> cache_step UNIV (a_brelse k) s s'"
proof -
  obtain xs where xs: "lru_list (lru s) xs" using cache_ok_lru [OF assms(2)] by blast
  let ?b = "(bufs s i)\<lparr>b_lock := (b_lock (bufs s i))\<lparr>sl_locked := False, sl_pid := 0\<rparr>, b_refcnt := b_refcnt (bufs s i) - 1\<rparr>"
  let ?s1 = "upd_buf i (\<lambda>b. b\<lparr>b_refcnt := b_refcnt b - 1\<rparr>) (wakeup (ChanBufLock i) (upd_buf i (\<lambda>b. b\<lparr>b_lock :=
     (b_lock (bufs s i))\<lparr>sl_locked := False, sl_pid := 0\<rparr>\<rparr>) s))"
  let ?s2 = "if b_refcnt ?b = 0 then ?s1\<lparr>lru := lru_front (lru ?s1) (B i)\<rparr> else ?s1"
  have i: "i < NBUF" "bkey (bufs s i) = k" "b_valid (bufs s i)" using assms(3) by (auto simp: handle_def)
  note ix = handle_index [OF assms(2,3)]
  have r: "brelse i s = Done () ?s2"
    using holdingsleep_handle [OF assms(1-4)] by (simp add: brelse_def releasesleep_def Let_def)
  have o1: "bc_only s ?s1" by (intro bc_only_trans [OF _ bc_only_upd_buf] bc_only_trans [OF _ bc_only_wakeup] bc_only_upd_buf)
  have "cache_step UNIV (a_brelse k) s ?s2"
  proof (rule cache_step_modify [OF assms(2,3), of _ ?b])
    show "\<exists>xs. lru_list (lru ?s2) xs" using lru_list_front [OF xs i(1)] xs by auto
    show "bc_only s ?s2" using o1 bc_only_trans [OF o1 bc_only_lru] by simp
    show "a_brelse k (bc_abs s) = bc_abs s\<lparr>ac_data := (ac_data (bc_abs s))(k := b_data ?b),
       ac_refs := (ac_refs (bc_abs s))(k := b_refcnt ?b),
       ac_lock := (ac_lock (bc_abs s))(k := if sl_locked (b_lock ?b) then Some (sl_pid (b_lock ?b)) else None)\<rparr>"
      using ix by (simp add: a_brelse_def fun_upd_idem)
  qed (use i ix assms(5) in \<open>auto simp: bkey_def\<close>)
  with r show ?thesis by blast
qed

lemma unreferenced_clean:
  assumes "cache_ok s" and "ac_refs (bc_abs s) k = 0"
  shows "ac_data (bc_abs s) k = ac_disk (bc_abs s) k"
proof (cases "lookup s k")
  case None
  then show ?thesis by (simp add: bc_abs_def)
next
  case (Some b)
  then obtain i where "i < NBUF" "bufs s i = b" "bkey b = k" using lookup_iff [OF assms(1)] by blast
  with Some assms show ?thesis using cache_ok_buf [of s i] by (auto simp: bc_abs_def buf_ok_def)
qed

section \<open>The interface\<close>

text \<open>
  What the log and the file system rely on. \<open>hnd s i k\<close>: buffer \<open>i\<close> is one for block \<open>k\<close>;
  \<open>fr\<close> is the frame of the operations and \<open>run s p\<close> says that process \<open>p\<close> runs.
\<close>

locale block_cache =
  fixes rd :: "u32 \<Rightarrow> u32 \<Rightarrow> 's \<Rightarrow> (nat, 's) outcome"
    and wr :: "nat \<Rightarrow> 's \<Rightarrow> (unit, 's) outcome"
    and relse :: "nat \<Rightarrow> 's \<Rightarrow> (unit, 's) outcome"
    and pin :: "nat \<Rightarrow> 's \<Rightarrow> 's"
    and unpin :: "nat \<Rightarrow> 's \<Rightarrow> 's"
    and data :: "'s \<Rightarrow> nat \<Rightarrow> block"
    and store :: "nat \<Rightarrow> block \<Rightarrow> 's \<Rightarrow> 's"
    and run :: "'s \<Rightarrow> int \<Rightarrow> bool"
    and step :: "bkey set \<Rightarrow> (acache \<Rightarrow> acache) \<Rightarrow> 's \<Rightarrow> 's \<Rightarrow> bool"
    and ok :: "'s \<Rightarrow> bool"
    and ab :: "'s \<Rightarrow> acache"
    and hnd :: "'s \<Rightarrow> nat \<Rightarrow> bkey \<Rightarrow> bool"
    and fr :: "'s \<Rightarrow> 's \<Rightarrow> bool"
  assumes step_ok: "step H f s s' \<Longrightarrow> ok s'"
    and step_ab: "step H f s s' \<Longrightarrow> ab s' = f (ab s)"
    and step_hnd: "step H f s s' \<Longrightarrow> k \<in> H \<Longrightarrow> hnd s i k \<Longrightarrow> hnd s' i k"
    and step_run: "step H f s s' \<Longrightarrow> run s p \<Longrightarrow> run s' p"
    and step_fr: "step H f s s' \<Longrightarrow> fr s s'"
    and fr_refl: "fr s s"
    and fr_trans: "fr r s \<Longrightarrow> fr s t \<Longrightarrow> fr r t"
    and clean: "ok s \<Longrightarrow> ac_refs (ab s) k = 0 \<Longrightarrow> ac_data (ab s) k = ac_disk (ab s) k"
    and rd: "run s p \<Longrightarrow> ok s \<Longrightarrow> can_bread (d, bn) (ab s) \<Longrightarrow>
      \<exists>i s'. rd d bn s = Done i s' \<and> hnd s' i (d, bn) \<and> step {k. ac_refs (ab s) k \<noteq> 0} (a_bread p (d, bn)) s s'"
    and data: "ok s \<Longrightarrow> hnd s i k \<Longrightarrow> data s i = ac_data (ab s) k"
    and store: "ok s \<Longrightarrow> hnd s i k \<Longrightarrow> ac_refs (ab s) k \<noteq> 0 \<Longrightarrow> step UNIV (a_store k x) s (store i x s)"
    and wr: "run s p \<Longrightarrow> ok s \<Longrightarrow> hnd s i k \<Longrightarrow> ac_lock (ab s) k = Some p \<Longrightarrow> ac_refs (ab s) k \<noteq> 0 \<Longrightarrow>
      \<exists>s'. wr i s = Done () s' \<and> step UNIV (a_bwrite k) s s'"
    and relse: "run s p \<Longrightarrow> ok s \<Longrightarrow> hnd s i k \<Longrightarrow> ac_lock (ab s) k = Some p \<Longrightarrow>
      (ac_refs (ab s) k = 1 \<Longrightarrow> ac_data (ab s) k = ac_disk (ab s) k) \<Longrightarrow>
      \<exists>s'. relse i s = Done () s' \<and> step UNIV (a_brelse k) s s'"
    and pin: "ok s \<Longrightarrow> hnd s i k \<Longrightarrow> ac_refs (ab s) k + 1 \<noteq> 0 \<Longrightarrow> step UNIV (a_bpin k) s (pin i s)"
    and unpin: "ok s \<Longrightarrow> hnd s i k \<Longrightarrow> (ac_refs (ab s) k = 1 \<Longrightarrow> ac_data (ab s) k = ac_disk (ab s) k) \<Longrightarrow>
      step UNIV (a_bunpin k) s (unpin i s)"
begin

lemmas stepD = step_ok step_ab step_run step_fr

text \<open>
  Where a run of operations stands: it started in \<open>s0\<close> and has reached \<open>s\<close>, whose abstract
  cache is \<open>a\<close>; \<open>H\<close> are the handles in hand. Each operation moves it on.
\<close>

definition at :: "'s \<Rightarrow> int \<Rightarrow> (nat \<times> bkey) set \<Rightarrow> 's \<Rightarrow> acache \<Rightarrow> bool" where
  "at s0 p H s a \<longleftrightarrow> ok s \<and> run s p \<and> fr s0 s \<and> ab s = a \<and> (\<forall>(i, k) \<in> H. hnd s i k)"

lemma at_start: "ok s \<Longrightarrow> run s p \<Longrightarrow> at s p {} s (ab s)"
  by (simp add: at_def fr_refl)

lemma at_step: "at s0 p H s a \<Longrightarrow> step UNIV f s s' \<Longrightarrow> at s0 p H s' (f a)"
  unfolding at_def using stepD [of UNIV f s s'] step_hnd [of UNIV f s s'] fr_trans by fastforce

lemma at_rd:
  assumes "at s0 p H s a" and "can_bread (d, bn) a" and "\<forall>(i, k) \<in> H. ac_refs a k \<noteq> 0"
  shows "\<exists>i s'. rd d bn s = Done i s' \<and> at s0 p (insert (i, (d, bn)) H) s' (a_bread p (d, bn) a)"
proof -
  obtain i s' where r: "rd d bn s = Done i s'" "hnd s' i (d, bn)" "step {k. ac_refs a k \<noteq> 0} (a_bread p (d, bn)) s s'"
    using rd [of s p d bn] assms(1,2) by (auto simp: at_def)
  moreover have "hnd s' j k" if "(j, k) \<in> H" for j k
    using step_hnd [OF r(3), of k j] assms(1,3) that by (auto simp: at_def)
  ultimately show ?thesis
    using assms(1) stepD [OF r(3)] fr_trans unfolding at_def by fastforce
qed

lemma at_data: "at s0 p H s a \<Longrightarrow> (i, k) \<in> H \<Longrightarrow> data s i = ac_data a k"
  unfolding at_def using data by blast

lemma at_store: "at s0 p H s a \<Longrightarrow> (i, k) \<in> H \<Longrightarrow> ac_refs a k \<noteq> 0 \<Longrightarrow> at s0 p H (store i x s) (a_store k x a)"
  by (rule at_step, assumption) (rule store; fastforce simp: at_def)

lemma at_wr:
  assumes "at s0 p H s a" and "(i, k) \<in> H" and "ac_lock a k = Some p" and "ac_refs a k \<noteq> 0"
  shows "\<exists>s'. wr i s = Done () s' \<and> at s0 p H s' (a_bwrite k a)"
proof -
  have "\<exists>s'. wr i s = Done () s' \<and> step UNIV (a_bwrite k) s s'"
    using assms by (intro wr [of s p]) (auto simp: at_def)
  then show ?thesis using at_step [OF assms(1)] by blast
qed

lemma at_relse:
  assumes "at s0 p H s a" and "(i, k) \<in> H" and "ac_lock a k = Some p" and "ac_refs a k = 1 \<Longrightarrow> ac_data a k = ac_disk a k"
  shows "\<exists>s'. relse i s = Done () s' \<and> at s0 p H s' (a_brelse k a)"
proof -
  have "\<exists>s'. relse i s = Done () s' \<and> step UNIV (a_brelse k) s s'"
    using assms by (intro relse [of s p]) (auto simp: at_def)
  then show ?thesis using at_step [OF assms(1)] by blast
qed

lemma at_pin: "at s0 p H s a \<Longrightarrow> (i, k) \<in> H \<Longrightarrow> ac_refs a k + 1 \<noteq> 0 \<Longrightarrow> at s0 p H (pin i s) (a_bpin k a)"
  by (rule at_step, assumption) (rule pin; fastforce simp: at_def)

lemma at_unpin: "at s0 p H s a \<Longrightarrow> (i, k) \<in> H \<Longrightarrow> (ac_refs a k = 1 \<Longrightarrow> ac_data a k = ac_disk a k) \<Longrightarrow>
   at s0 p H (unpin i s) (a_bunpin k a)"
  by (rule at_step, assumption) (rule unpin; fastforce simp: at_def)

lemma at_clean: "at s0 p H s a \<Longrightarrow> ac_refs a k = 0 \<Longrightarrow> ac_data a k = ac_disk a k"
  unfolding at_def using clean by blast

lemma at_done: "at s0 p H s a \<Longrightarrow> ok s \<and> run s p \<and> fr s0 s \<and> ab s = a"
  by (simp add: at_def)

lemma at_trans: "at s0 p H s a \<Longrightarrow> at s p H' s' b \<Longrightarrow> at s0 p H' s' b"
  unfolding at_def using fr_trans by blast

lemma at_restart: "at s0 p H s a \<Longrightarrow> at s p {} s a"
  by (simp add: at_def fr_refl)

lemma at_each:
  assumes "at s0 p {} s (A 0)"
    and "\<And>j s. j < n \<Longrightarrow> at s0 p {} s (A j) \<Longrightarrow> \<exists>s'. f j s = Done () s' \<and> at s p {} s' (A (Suc j))"
  shows "\<exists>s'. each f [0..<n] s = Done () s' \<and> at s0 p {} s' (A n)"
  using assms(2)
proof (induction n)
  case 0
  with assms(1) show ?case by simp
next
  case (Suc n)
  then obtain s1 where "each f [0..<n] s = Done () s1" "at s0 p {} s1 (A n)" by auto
  with Suc.prems [of n s1] show ?case by (auto simp: each_append dest: at_trans)
qed

text \<open>Updating one block: read it, change it, write it to disk, release it.\<close>

lemma update_block:
  assumes "run s p" and "ok s" and "can_bread (d, bn) (ab s)"
  shows "\<exists>i s1 s'. rd d bn s = Done i s1 \<and> data s1 i = ac_data (ab s) (d, bn)
     \<and> bnd (wr i (store i x s1)) (\<lambda>_ s. relse i s) = Done () s' \<and> at s p {} s' (put_block (d, bn) x (ab s))"
proof -
  let ?k = "(d, bn)" and ?a = "a_bread p (d, bn) (ab s)"
  have nl: "ac_lock (ab s) ?k = None" and r1: "ac_refs (ab s) ?k + 1 \<noteq> 0" using assms(3) by (auto simp: can_bread_def)
  obtain i s1 where s1: "rd d bn s = Done i s1" "at s p {(i, ?k)} s1 ?a"
    using at_rd [OF at_start [OF assms(2,1)] assms(3)] by auto
  have "at s p {(i, ?k)} (store i x s1) (a_store ?k x ?a)"
    using at_store [OF s1(2)] r1 by (simp add: a_bread_def)
  from at_wr [OF this, of i ?k] r1 obtain s3 where
      s3: "wr i (store i x s1) = Done () s3" "at s p {(i, ?k)} s3 (a_bwrite ?k (a_store ?k x ?a))"
    by (auto simp: a_store_def a_bread_def)
  from at_relse [OF s3(2), of i ?k] obtain s4 where
      s4: "relse i s3 = Done () s4" "at s p {(i, ?k)} s4 (a_brelse ?k (a_bwrite ?k (a_store ?k x ?a)))"
    by (auto simp: a_bwrite_def a_store_def a_bread_def)
  have "a_brelse ?k (a_bwrite ?k (a_store ?k x ?a)) = put_block ?k x (ab s)"
    using nl by (auto simp: put_block_def a_bwrite_def a_store_def a_bread_def a_brelse_def intro!: acache.equality)
  with s1(1) s3(1) s4 at_data [OF s1(2)] show ?thesis by (auto simp: at_def a_bread_def)
qed

text \<open>
  Copying block \<open>src\<close>, which somebody has pinned, to block \<open>dst\<close>, as \<open>write_log\<close> does.
\<close>

lemma copy_out:
  assumes "run s p" and "ok s" and "can_bread (d, dst) (ab s)" and "can_bread (d, src) (ab s)"
    and "ac_refs (ab s) (d, src) \<noteq> 0" and "dst \<noteq> src"
  shows "\<exists>s'. bnd (rd d dst s) (\<lambda>i s. bnd (rd d src s) (\<lambda>j s. bnd (wr i (store i (data s j) s)) (\<lambda>_ s.
       bnd (relse j s) (\<lambda>_ s. relse i s)))) = Done () s'
     \<and> at s p {} s' (put_block (d, dst) (ac_data (ab s) (d, src)) (ab s))"
proof -
  let ?k = "(d, dst)" and ?l = "(d, src)" and ?a = "a_bread p (d, src) (a_bread p (d, dst) (ab s))"
  let ?x = "ac_data (ab s) ?l"
  note c = assms(3,4) [unfolded can_bread_def]
  obtain i s1 where s1: "rd d dst s = Done i s1" "at s p {(i, ?k)} s1 (a_bread p ?k (ab s))"
    using at_rd [OF at_start [OF assms(2,1)] assms(3)] by auto
  have "can_bread ?l (a_bread p ?k (ab s))" using c assms(5,6) by (auto simp: can_bread_def a_bread_def)
  from at_rd [OF s1(2) this] c obtain j s2 where s2: "rd d src s1 = Done j s2" "at s p {(j, ?l), (i, ?k)} s2 ?a"
    by (auto simp: a_bread_def)
  have x: "data s2 j = ?x" using at_data [OF s2(2)] by (simp add: a_bread_def)
  have "at s p {(j, ?l), (i, ?k)} (store i ?x s2) (a_store ?k ?x ?a)"
    using at_store [OF s2(2)] c assms(6) by (simp add: a_bread_def)
  from at_wr [OF this, of i ?k] c assms(6) obtain s3 where
      s3: "wr i (store i ?x s2) = Done () s3" "at s p {(j, ?l), (i, ?k)} s3 (a_bwrite ?k (a_store ?k ?x ?a))"
    by (auto simp: a_store_def a_bread_def)
  from at_relse [OF s3(2), of j ?l] assms(5,6) obtain s4 where
      s4: "relse j s3 = Done () s4" "at s p {(j, ?l), (i, ?k)} s4 (a_brelse ?l (a_bwrite ?k (a_store ?k ?x ?a)))"
    by (auto simp: a_bwrite_def a_store_def a_bread_def)
  from at_relse [OF s4(2), of i ?k] assms(6) obtain s5 where
      s5: "relse i s4 = Done () s5"
        "at s p {(j, ?l), (i, ?k)} s5 (a_brelse ?k (a_brelse ?l (a_bwrite ?k (a_store ?k ?x ?a))))"
    by (auto simp: a_bwrite_def a_store_def a_bread_def a_brelse_def)
  have "a_brelse ?k (a_brelse ?l (a_bwrite ?k (a_store ?k ?x ?a))) = put_block ?k ?x (ab s)"
    using c assms(6) by (auto simp: put_block_def a_bwrite_def a_store_def a_bread_def a_brelse_def intro!: acache.equality)
  with s1(1) s2(1) s3(1) s4(1) s5 x show ?thesis by (auto simp: at_def)
qed

text \<open>
  Copying block \<open>src\<close> to block \<open>dst\<close> and unpinning \<open>dst\<close>, as \<open>install_trans\<close> does. Where
  \<open>dst\<close> was not pinned its reference count ends up below zero, and wraps.
\<close>

lemma copy_home:
  assumes "run s p" and "ok s" and "can_bread (d, src) (ab s)" and "can_bread (d, dst) (a_bread p (d, src) (ab s))"
    and "dst \<noteq> src"
  shows "\<exists>s'. bnd (rd d src s) (\<lambda>i s. bnd (rd d dst s) (\<lambda>j s. bnd (wr j (store j (data s i) s)) (\<lambda>_ s.
       let s = unpin j s in bnd (relse i s) (\<lambda>_ s. relse j s)))) = Done () s'
     \<and> at s p {} s' (a_bunpin (d, dst) (put_block (d, dst) (ac_data (ab s) (d, src)) (ab s)))"
proof -
  let ?k = "(d, dst)" and ?l = "(d, src)" and ?a = "a_bread p (d, dst) (a_bread p (d, src) (ab s))"
  let ?x = "ac_data (ab s) ?l"
  note c = assms(3,4) [unfolded can_bread_def]
  have c': "ac_refs (ab s) ?k + 1 \<noteq> 0" "ac_lock (ab s) ?k = None" using c assms(5) by (auto simp: a_bread_def)
  obtain i s1 where s1: "rd d src s = Done i s1" "at s p {(i, ?l)} s1 (a_bread p ?l (ab s))"
    using at_rd [OF at_start [OF assms(2,1)] assms(3)] by auto
  from at_rd [OF s1(2) assms(4)] c obtain j s2 where s2: "rd d dst s1 = Done j s2" "at s p {(j, ?k), (i, ?l)} s2 ?a"
    by (auto simp: a_bread_def)
  have x: "data s2 i = ?x" using at_data [OF s2(2)] by (simp add: a_bread_def)
  have "at s p {(j, ?k), (i, ?l)} (store j ?x s2) (a_store ?k ?x ?a)"
    using at_store [OF s2(2)] c' assms(5) by (simp add: a_bread_def)
  from at_wr [OF this, of j ?k] c' assms(5) obtain s3 where
      s3: "wr j (store j ?x s2) = Done () s3" "at s p {(j, ?k), (i, ?l)} s3 (a_bwrite ?k (a_store ?k ?x ?a))"
    by (auto simp: a_store_def a_bread_def)
  let ?b = "a_bunpin ?k (a_bwrite ?k (a_store ?k ?x ?a))"
  have s4: "at s p {(j, ?k), (i, ?l)} (unpin j s3) ?b"
    using at_unpin [OF s3(2), of j ?k] by (simp add: a_bwrite_def a_store_def a_bread_def)
  have "ac_refs ?b ?l = 1 \<Longrightarrow> ac_data ?b ?l = ac_disk ?b ?l"
    using clean [OF assms(2), of ?l] assms(5) by (simp add: a_bunpin_def a_bwrite_def a_store_def a_bread_def)
  with at_relse [OF s4, of i ?l] assms(5) obtain s5 where
      s5: "relse i (unpin j s3) = Done () s5" "at s p {(j, ?k), (i, ?l)} s5 (a_brelse ?l ?b)"
    by (auto simp: a_bunpin_def a_bwrite_def a_store_def a_bread_def)
  from at_relse [OF s5(2), of j ?k] assms(5) obtain s6 where
      s6: "relse j s5 = Done () s6" "at s p {(j, ?k), (i, ?l)} s6 (a_brelse ?k (a_brelse ?l ?b))"
    by (auto simp: a_bunpin_def a_bwrite_def a_store_def a_bread_def a_brelse_def)
  have "a_brelse ?k (a_brelse ?l ?b) = a_bunpin ?k (put_block ?k ?x (ab s))"
    using c c' assms(5)
    by (auto simp: put_block_def a_bunpin_def a_bwrite_def a_store_def a_bread_def a_brelse_def intro!: acache.equality)
  with s1(1) s2(1) s3(1) s5(1) s6 x show ?thesis by (auto simp: at_def Let_def)
qed

end

interpretation bio: block_cache bread bwrite brelse bpin bunpin "\<lambda>s i. b_data (bufs s i)" set_data running
  cache_step cache_ok bc_abs handle bc_only
proof (unfold_locales, goal_cases)
  case 1 then show ?case by (simp add: cache_step_def)
next
  case 2 then show ?case by (simp add: cache_step_def)
next
  case 3 then show ?case unfolding cache_step_def by blast
next
  case 4 then show ?case using running_bc_only unfolding cache_step_def by blast
next
  case 5 then show ?case by (simp add: cache_step_def)
next
  case 6 show ?case by simp
next
  case 7 then show ?case by (rule bc_only_trans)
next
  case 8 then show ?case by (rule unreferenced_clean)
next
  case 9 then show ?case by (rule bread_spec)
next
  case 10 then show ?case by (simp add: handle_index)
next
  case 11 then show ?case by (rule set_data_spec)
next
  case 12 then show ?case by (rule bwrite_spec)
next
  case 13 then show ?case by (rule brelse_spec)
next
  case 14 then show ?case by (rule bpin_spec)
next
  case 15 then show ?case by (rule bunpin_spec)
qed

section \<open>The cache at boot\<close>

lemma binit_fold:
  assumes "n \<le> NBUF" and "dll (lru s) Head (map B xs)" and "set xs \<inter> {..<n} = {}"
  defines "t \<equiv> fold (\<lambda>i s. (upd_buf i (\<lambda>b. b\<lparr>b_lock := initsleeplock ''buffer''\<rparr>) s)\<lparr>lru := lst_push (lru s) Head (B i)\<rparr>) [0..<n] s"
  shows "dll (lru t) Head (map B (rev [0..<n] @ xs)) \<and> disk t = disk s \<and> dtrace t = dtrace s
     \<and> (\<forall>i. bufs t i = (if i < n then (bufs s i)\<lparr>b_lock := initsleeplock ''buffer''\<rparr> else bufs s i))"
  unfolding t_def using assms(1-3)
proof (induction n)
  case 0
  then show ?case by simp
next
  case (Suc n)
  let ?t = "fold (\<lambda>i s. (upd_buf i (\<lambda>b. b\<lparr>b_lock := initsleeplock ''buffer''\<rparr>) s)\<lparr>lru := lst_push (lru s) Head (B i)\<rparr>) [0..<n] s"
  have IH: "dll (lru ?t) Head (map B (rev [0..<n] @ xs)) \<and> disk ?t = disk s \<and> dtrace ?t = dtrace s
     \<and> (\<forall>i. bufs ?t i = (if i < n then (bufs s i)\<lparr>b_lock := initsleeplock ''buffer''\<rparr> else bufs s i))"
    using Suc by (intro Suc.IH) auto
  then have "dll (lst_push (lru ?t) Head (B n)) Head (B n # map B (rev [0..<n] @ xs))"
    using Suc.prems(3) by (intro dll_push) auto
  with IH show ?case by (auto simp: less_Suc_eq)
qed

lemma binit_procs: "procs (binit s) = procs s" "cur (binit s) = cur s"
  unfolding binit_def by (subst fold_keeps_field; simp)+

definition empty_cache :: "(bkey \<Rightarrow> block) \<Rightarrow> (bkey \<times> block) list \<Rightarrow> acache" where
  "empty_cache d t = \<lparr>ac_data = d, ac_refs = (\<lambda>_. 0), ac_lock = (\<lambda>_. None), ac_disk = d, ac_trace = t\<rparr>"

text \<open>\<open>binit\<close> on the zeroed buffers of a fresh kernel.\<close>

lemma binit_spec:
  assumes "\<And>i. i < NBUF \<Longrightarrow> \<not> b_valid (bufs s i) \<and> b_refcnt (bufs s i) = 0 \<and> bkey (bufs s i) = (0, 0)"
  shows "cache_ok (binit s) \<and> bc_abs (binit s) = empty_cache (disk s) (dtrace s)"
proof -
  let ?s = "s\<lparr>lru := lst_init (lru s) Head\<rparr>"
  have "dll (lru ?s) Head (map B [])" by (simp add: dll_init)
  from binit_fold [OF order_refl this]
  have t: "dll (lru (binit s)) Head (map B (rev [0..<NBUF]))" "disk (binit s) = disk s" "dtrace (binit s) = dtrace s"
    "\<And>i. i < NBUF \<Longrightarrow> bufs (binit s) i = (bufs s i)\<lparr>b_lock := initsleeplock ''buffer''\<rparr>"
    by (simp_all add: binit_def)
  have dead: "\<not> live (bufs (binit s) i)" "bkey (bufs (binit s) i) = (0, 0)" "\<not> sl_locked (b_lock (bufs (binit s) i))" if "i < NBUF" for i
    using assms [OF that] t(4) [OF that] by (auto simp: live_def bkey_def initsleeplock_def)
  have "lru_list (lru (binit s)) (rev [0..<NBUF])" using t(1) by (auto simp: lru_list_def)
  then have ok: "cache_ok (binit s)" using dead by (auto simp: cache_ok_def buf_ok_def live_def key_ok_def)
  have "lookup (binit s) k = None" for k using dead by (auto simp: lookup_None_iff [OF ok])
  then show ?thesis using ok t by (simp add: bc_abs_def empty_cache_def)
qed

text \<open>
  C2: the buffer cache implements the abstract cache. In a good state, and for the running
  process: \<open>bread\<close> of a block that is not locked, with a buffer to spare, returns a locked buffer
  with the current contents of exactly that block, and evicting another block loses nothing;
  \<open>bwrite\<close> of a buffer the process holds puts its contents on disk; \<open>brelse\<close> gives up lock and
  reference. Each leaves a good state, whose view of all blocks is the abstract operation's.
\<close>

theorem bcache_refines:
  assumes "running s p" and "cache_ok s"
  shows "(\<forall>d bn. can_bread (d, bn) (bc_abs s) \<longrightarrow> (\<exists>i s'. bread d bn s = Done i s' \<and> cache_ok s'
            \<and> bkey (bufs s' i) = (d, bn) \<and> b_data (bufs s' i) = ac_data (bc_abs s) (d, bn)
            \<and> bc_abs s' = a_bread p (d, bn) (bc_abs s)))
    \<and> (\<forall>i k. handle s i k \<and> ac_lock (bc_abs s) k = Some p \<and> ac_refs (bc_abs s) k \<noteq> 0 \<longrightarrow>
          (\<exists>s'. bwrite i s = Done () s' \<and> cache_ok s' \<and> bc_abs s' = a_bwrite k (bc_abs s)))
    \<and> (\<forall>i k. handle s i k \<and> ac_lock (bc_abs s) k = Some p
          \<and> (ac_refs (bc_abs s) k = 1 \<longrightarrow> ac_data (bc_abs s) k = disk s k) \<longrightarrow>
          (\<exists>s'. brelse i s = Done () s' \<and> cache_ok s' \<and> bc_abs s' = a_brelse k (bc_abs s)))"
proof (intro conjI allI impI)
  fix d bn assume "can_bread (d, bn) (bc_abs s)"
  from bio.rd [OF assms this] obtain i s' where
    "bread d bn s = Done i s'" "handle s' i (d, bn)" "cache_ok s'" "bc_abs s' = a_bread p (d, bn) (bc_abs s)"
    using bio.step_ok bio.step_ab by blast
  then show "\<exists>i s'. bread d bn s = Done i s' \<and> cache_ok s'
          \<and> bkey (bufs s' i) = (d, bn) \<and> b_data (bufs s' i) = ac_data (bc_abs s) (d, bn)
          \<and> bc_abs s' = a_bread p (d, bn) (bc_abs s)"
    using bio.data [of s' i "(d, bn)"] by (auto simp: handle_def a_bread_def)
next
  fix i k assume "handle s i k \<and> ac_lock (bc_abs s) k = Some p \<and> ac_refs (bc_abs s) k \<noteq> 0"
  then show "\<exists>s'. bwrite i s = Done () s' \<and> cache_ok s' \<and> bc_abs s' = a_bwrite k (bc_abs s)"
    using bio.wr [OF assms, of i k] bio.step_ok bio.step_ab by blast
next
  fix i k assume "handle s i k \<and> ac_lock (bc_abs s) k = Some p
    \<and> (ac_refs (bc_abs s) k = 1 \<longrightarrow> ac_data (bc_abs s) k = disk s k)"
  then show "\<exists>s'. brelse i s = Done () s' \<and> cache_ok s' \<and> bc_abs s' = a_brelse k (bc_abs s)"
    using bio.relse [OF assms, of i k] bio.step_ok bio.step_ab by fastforce
qed

definition boot_buf :: buf where
  "boot_buf = \<lparr>b_valid = False, b_disk = False, b_dev = 0, b_blockno = 0,
     b_lock = \<lparr>sl_locked = False, sl_name = [], sl_pid = 0\<rparr>, b_refcnt = 0, b_data = (\<lambda>_. 0)\<rparr>"

text \<open>The state before \<open>binit\<close>, with process 0 running, over a disk.\<close>

definition boot_raw :: "(bkey \<Rightarrow> block) \<Rightarrow> bcache_st" where
  "boot_raw d = proc_st.extend (boot_table\<lparr>cur := Some 0\<rparr>) \<lparr>bufs = (\<lambda>_. boot_buf),
     lru = \<lparr>nxt = (\<lambda>_. Head), prv = (\<lambda>_. Head)\<rparr>, disk = d, dtrace = []\<rparr>"

lemma boot_raw_simps:
  "bufs (boot_raw d) = (\<lambda>_. boot_buf)" "disk (boot_raw d) = d" "dtrace (boot_raw d) = []"
  "cur (boot_raw d) = Some 0" "procs (boot_raw d) = (\<lambda>_. boot_proc)"
  by (simp_all add: boot_raw_def proc_st.defs boot_table_def)

lemma boot_buf_simps: "\<not> b_valid boot_buf" "b_refcnt boot_buf = 0" "bkey boot_buf = (0, 0)"
  by (simp_all add: boot_buf_def bkey_def)

theorem bcache_refines_witness:
  "\<exists>i s. bread 0 7 (binit (boot_raw (\<lambda>k _. if k = (0, 7) then 42 else 0))) = Done i s \<and> b_data (bufs s i) = (\<lambda>_. 42)"
proof -
  let ?d = "\<lambda>k _. if k = (0, 7) then 42 else 0 :: u8"
  have c: "cache_ok (binit (boot_raw ?d))" "bc_abs (binit (boot_raw ?d)) = empty_cache ?d []"
    using binit_spec [of "boot_raw ?d"] by (simp_all add: boot_raw_simps boot_buf_simps)
  have "can_bread (0, 7) (empty_cache ?d [])" by (simp add: can_bread_def key_ok_def empty_cache_def NBUF_def NDISK_def)
  moreover have "running (binit (boot_raw ?d)) 0"
    by (simp add: running_def binit_procs boot_raw_simps boot_proc_def)
  ultimately show ?thesis
    using bcache_refines [of "binit (boot_raw ?d)" 0] c by (fastforce simp: empty_cache_def)
qed

end
