(* ===== verification/Xv6_Log.thy ===== *)
theory Xv6_Log
  imports Xv6_Bio
begin

text \<open>
  \<open>kernel/log.c\<close>, the redo log of the file system: transactions, commit and recovery. The main
  theorem is crash atomicity: whatever prefix of the disk writes of a commit has reached the
  disk when the machine stops, recovery gives the old contents of all blocks or the new ones.
\<close>

section \<open>State\<close>

definition LOGSIZE :: nat where "LOGSIZE = 30"
definition MAXOPBLOCKS :: nat where "MAXOPBLOCKS = 10"

text \<open>\<open>struct superblock\<close> of \<open>kernel/fs.h\<close>.\<close>

record superblock =
  sb_magic :: u32
  sb_size :: u32
  sb_nblocks :: u32
  sb_ninodes :: u32
  sb_nlog :: u32
  sb_logstart :: u32
  sb_inodestart :: u32
  sb_bmapstart :: u32

text \<open>
  \<open>struct log\<close> with its \<open>struct logheader\<close>. Block numbers are kept as the 32 bits they are
  compared and stored as.
\<close>

record log =
  lg_start :: u32
  lg_size :: int
  lg_outstanding :: int
  lg_committing :: bool
  lg_dev :: u32
  lh_n :: int
  lh_block :: "nat \<Rightarrow> u32"

record log_st = bcache_st +
  logs :: "nat \<Rightarrow> log"

definition the_log :: "u32 \<Rightarrow> 'z log_st_scheme \<Rightarrow> log" where
  "the_log dev s = logs s (unat dev)"

definition upd_log :: "u32 \<Rightarrow> (log \<Rightarrow> log) \<Rightarrow> 'z log_st_scheme \<Rightarrow> 'z log_st_scheme" where
  "upd_log dev f s = s\<lparr>logs := (logs s)(unat dev := f (logs s (unat dev)))\<rparr>"

section \<open>Operations\<close>

text \<open>The body of the loop of \<open>install_trans\<close>, and the loop.\<close>

definition install_one :: "u32 \<Rightarrow> nat \<Rightarrow> 'z log_st_scheme \<Rightarrow> (unit, 'z log_st_scheme) outcome" where
  "install_one dev tail s =
     bnd (bread dev (lg_start (the_log dev s) + of_nat tail + 1) s) (\<lambda>lbuf s.
     bnd (bread dev (lh_block (the_log dev s) tail) s) (\<lambda>dbuf s.
     bnd (bwrite dbuf (set_data dbuf (b_data (bufs s lbuf)) s)) (\<lambda>_ s.
     let s = bunpin dbuf s in
     bnd (brelse lbuf s) (\<lambda>_ s.
     brelse dbuf s))))"

definition install_trans :: "u32 \<Rightarrow> 'z log_st_scheme \<Rightarrow> (unit, 'z log_st_scheme) outcome" where
  "install_trans dev s = each (install_one dev) [0..<nat (lh_n (the_log dev s))] s"

text \<open>
  \<open>read_head\<close> copies as many block numbers as the header on disk says; with more than
  \<open>LOGSIZE\<close> it writes past the end of the array.
\<close>

definition read_head :: "u32 \<Rightarrow> 'z log_st_scheme \<Rightarrow> (unit, 'z log_st_scheme) outcome" where
  "read_head dev s =
     bnd (bread dev (lg_start (the_log dev s)) s) (\<lambda>i s.
     let lh = b_data (bufs s i); n = sint (get32 lh 0)
     in if n > int LOGSIZE then Undef ''read_head: log header too long''
        else brelse i (upd_log dev (\<lambda>l. l\<lparr>lh_n := n,
               lh_block := (\<lambda>j. if int j < n then get32 lh (4 + 4 * j) else lh_block l j)\<rparr>) s))"

fun put_blocks :: "block \<Rightarrow> (nat \<Rightarrow> u32) \<Rightarrow> nat \<Rightarrow> block" where
  "put_blocks hb f 0 = hb"
| "put_blocks hb f (Suc j) = put32 (put_blocks hb f j) (4 + 4 * j) (f j)"

definition write_head :: "u32 \<Rightarrow> 'z log_st_scheme \<Rightarrow> (unit, 'z log_st_scheme) outcome" where
  "write_head dev s =
     bnd (bread dev (lg_start (the_log dev s)) s) (\<lambda>i s.
     let l = the_log dev s;
         hb = put_blocks (put32 (b_data (bufs s i)) 0 (of_int (lh_n l))) (lh_block l) (nat (lh_n l))
     in bnd (bwrite i (set_data i hb s)) (\<lambda>_ s. brelse i s))"

definition recover_from_log :: "u32 \<Rightarrow> 'z log_st_scheme \<Rightarrow> (unit, 'z log_st_scheme) outcome" where
  "recover_from_log dev s =
     bnd (read_head dev s) (\<lambda>_ s.
     bnd (install_trans dev s) (\<lambda>_ s.
     write_head dev (upd_log dev (\<lambda>l. l\<lparr>lh_n := 0\<rparr>) s)))"

definition initlog :: "u32 \<Rightarrow> superblock \<Rightarrow> 'z log_st_scheme \<Rightarrow> (unit, 'z log_st_scheme) outcome" where
  "initlog dev sb s =
     (if 4 + 4 * LOGSIZE \<ge> BSIZE then Panic ''initlog: too big logheader''
      else recover_from_log dev (upd_log dev (\<lambda>l. l\<lparr>lg_start := sb_logstart sb, lg_size := sint (sb_nlog sb),
             lg_dev := dev\<rparr>) s))"

text \<open>One try of the loop in \<open>begin_op\<close>; a process that sleeps tries again when it is woken.\<close>

definition begin_op :: "u32 \<Rightarrow> 'z log_st_scheme \<Rightarrow> (unit, 'z log_st_scheme) outcome" where
  "begin_op dev s =
     (let l = the_log dev s
      in if lg_committing l then sleep_on ChanLog s
         else if lh_n l + (lg_outstanding l + 1) * int MAXOPBLOCKS > int LOGSIZE then sleep_on ChanLog s
         else Done () (upd_log dev (\<lambda>l. l\<lparr>lg_outstanding := lg_outstanding l + 1\<rparr>) s))"

definition write_one :: "u32 \<Rightarrow> nat \<Rightarrow> 'z log_st_scheme \<Rightarrow> (unit, 'z log_st_scheme) outcome" where
  "write_one dev tail s =
     bnd (bread dev (lg_start (the_log dev s) + of_nat tail + 1) s) (\<lambda>to s.
     bnd (bread dev (lh_block (the_log dev s) tail) s) (\<lambda>from s.
     bnd (bwrite to (set_data to (b_data (bufs s from)) s)) (\<lambda>_ s.
     bnd (brelse from s) (\<lambda>_ s.
     brelse to s))))"

definition write_log :: "u32 \<Rightarrow> 'z log_st_scheme \<Rightarrow> (unit, 'z log_st_scheme) outcome" where
  "write_log dev s = each (write_one dev) [0..<nat (lh_n (the_log dev s))] s"

definition commit :: "u32 \<Rightarrow> 'z log_st_scheme \<Rightarrow> (unit, 'z log_st_scheme) outcome" where
  "commit dev s =
     (if lh_n (the_log dev s) > 0
      then bnd (write_log dev s) (\<lambda>_ s.
           bnd (write_head dev s) (\<lambda>_ s.
           bnd (install_trans dev s) (\<lambda>_ s.
           write_head dev (upd_log dev (\<lambda>l. l\<lparr>lh_n := 0\<rparr>) s))))
      else Done () s)"

definition end_op :: "u32 \<Rightarrow> 'z log_st_scheme \<Rightarrow> (unit, 'z log_st_scheme) outcome" where
  "end_op dev s =
     (let s = upd_log dev (\<lambda>l. l\<lparr>lg_outstanding := lg_outstanding l - 1\<rparr>) s
      in if lg_committing (the_log dev s) then Panic ''log[dev].committing''
         else if lg_outstanding (the_log dev s) = 0
         then bnd (commit dev (upd_log dev (\<lambda>l. l\<lparr>lg_committing := True\<rparr>) s)) (\<lambda>_ s.
                Done () (wakeup ChanLog (upd_log dev (\<lambda>l. l\<lparr>lg_committing := False\<rparr>) s)))
         else Done () (wakeup ChanLog s))"

text \<open>The loop of \<open>log_write\<close>: the index of the block in the header, or \<open>n\<close>.\<close>

fun log_index :: "(nat \<Rightarrow> u32) \<Rightarrow> u32 \<Rightarrow> nat \<Rightarrow> nat \<Rightarrow> nat" where
  "log_index blk b i 0 = i"
| "log_index blk b i (Suc k) = (if blk i = b then i else log_index blk b (Suc i) k)"

definition log_write :: "nat \<Rightarrow> 'z log_st_scheme \<Rightarrow> (unit, 'z log_st_scheme) outcome" where
  "log_write b s =
     (let dev = b_dev (bufs s b); l = the_log dev s
      in if unat dev \<ge> NDISK then Undef ''log_write: no such log''
         else if lh_n l \<ge> int LOGSIZE \<or> lh_n l \<ge> lg_size l - 1 then Panic ''too big a transaction''
         else if lg_outstanding l < 1 then Panic ''log_write outside of trans''
         else let i = log_index (lh_block l) (b_blockno (bufs s b)) 0 (nat (lh_n l));
                  s = upd_log dev (\<lambda>l. l\<lparr>lh_block := (lh_block l)(i := b_blockno (bufs s b))\<rparr>) s
              in if int i = lh_n l
                 then Done () (upd_log dev (\<lambda>l. l\<lparr>lh_n := lh_n l + 1\<rparr>) (bpin b s))
                 else Done () s)"
section \<open>The log operations on the abstract cache\<close>

lemma bc_only_logs:
  fixes s s' :: "'z log_st_scheme"
  assumes "bc_only s s'"
  shows "logs s' = logs s" and "the_log d s' = the_log d s"
  using assms [unfolded bc_only_def, THEN conjunct2, THEN arg_cong, of logs] by (simp_all add: bc_blank_def the_log_def)

lemma bc_abs_cong:
  assumes "bufs s' = bufs s" and "disk s' = disk s" and "dtrace s' = dtrace s"
  shows "bc_abs s' = bc_abs s"
  unfolding bc_abs_def lookup_def assms ..

lemma bc_abs_upd_log [simp]: "bc_abs (upd_log d f s) = bc_abs s"
  by (rule bc_abs_cong) (simp_all add: upd_log_def)

lemma upd_log_simps [simp]:
  "the_log d (upd_log d f s) = f (the_log d s)" "cache_ok (upd_log d f s) = cache_ok s"
  "running (upd_log d f s) p = running s p" "handle (upd_log d f s) i k = handle s i k" "bufs (upd_log d f s) = bufs s"
  "disk (upd_log d f s) = disk s" "dtrace (upd_log d f s) = dtrace s"
  by (simp_all add: upd_log_def the_log_def cache_ok_def running_def handle_def)

lemma at_upd_log: "bio.at s0 p H s a \<Longrightarrow> bio.at (upd_log d f s) p H (upd_log d f s) a"
  by (simp add: bio.at_def)

lemma at_log: "bio.at s0 p H s a \<Longrightarrow> the_log d s = the_log d s0"
  for s s0 :: "'z log_st_scheme"
  by (simp add: bio.at_def bc_only_logs(2))

lemma bread_log:
  fixes s :: "'z log_st_scheme"
  assumes "bio.at s0 p H s a" and "can_bread (d, bn) a" and "bread d bn s = Done i s'"
  shows "the_log e s' = the_log e s"
proof -
  have "running s p" "cache_ok s" "bc_abs s = a" using assms(1) by (simp_all add: bio.at_def)
  with bio.rd [of s p d bn] assms(2,3) have "bc_only s s'" using bio.step_fr by fastforce
  then show ?thesis by (rule bc_only_logs)
qed

definition enc_head :: "block \<Rightarrow> (nat \<Rightarrow> u32) \<Rightarrow> nat \<Rightarrow> block" where
  "enc_head hb f n = put_blocks (put32 hb 0 (of_nat n)) f n"

lemma write_one_spec:
  fixes s :: "'z log_st_scheme"
  assumes "bio.at s0 p {} s a" and "lg_start (the_log d s) + of_nat j + 1 = to" and "lh_block (the_log d s) j = bn"
    and "can_bread (d, to) a" and "can_bread (d, bn) a" and "ac_refs a (d, bn) \<noteq> 0" and "to \<noteq> bn"
  shows "\<exists>s'. write_one d j s = Done () s' \<and> bio.at s p {} s' (put_block (d, to) (ac_data a (d, bn)) a)"
proof -
  have s: "running s p" "cache_ok s" "bc_abs s = a" using assms(1) by (simp_all add: bio.at_def)
  have "write_one d j s = bnd (bread d to s) (\<lambda>i s. bnd (bread d bn s) (\<lambda>j s. bnd (bwrite i (set_data i (b_data (bufs s j)) s)) (\<lambda>_ s.
       bnd (brelse j s) (\<lambda>_ s. brelse i s))))"
    unfolding write_one_def assms(2) by (rule bnd_cong) (auto simp: bread_log [OF assms(1,4)] assms(3))
  then show ?thesis using bio.copy_out [of s p d to bn] s assms(4-7) by simp
qed

lemma install_one_spec:
  fixes s :: "'z log_st_scheme"
  assumes "bio.at s0 p {} s a" and "lg_start (the_log d s) + of_nat j + 1 = from" and "lh_block (the_log d s) j = bn"
    and "can_bread (d, from) a" and "can_bread (d, bn) (a_bread p (d, from) a)" and "bn \<noteq> from"
  shows "\<exists>s'. install_one d j s = Done () s' \<and>
     bio.at s p {} s' (a_bunpin (d, bn) (put_block (d, bn) (ac_data a (d, from)) a))"
proof -
  have s: "running s p" "cache_ok s" "bc_abs s = a" using assms(1) by (simp_all add: bio.at_def)
  have "install_one d j s = bnd (bread d from s) (\<lambda>i s. bnd (bread d bn s) (\<lambda>j s. bnd (bwrite j (set_data j (b_data (bufs s i)) s)) (\<lambda>_ s.
       let s = bunpin j s in bnd (brelse i s) (\<lambda>_ s. brelse j s))))"
    unfolding install_one_def assms(2) by (rule bnd_cong) (auto simp: bread_log [OF assms(1,4)] assms(3))
  then show ?thesis using bio.copy_home [of s p d "from" bn] s assms(4-6) by simp
qed

lemma write_head_spec:
  fixes s :: "'z log_st_scheme"
  assumes "bio.at s0 p {} s a" and "can_bread (d, lg_start (the_log d s)) a" and "lh_n (the_log d s) = int n"
  defines "k \<equiv> (d, lg_start (the_log d s))"
  shows "\<exists>s'. write_head d s = Done () s' \<and>
     bio.at s p {} s' (put_block k (enc_head (ac_data a k) (lh_block (the_log d s)) n) a)"
proof -
  have s: "running s p" "cache_ok s" "bc_abs s = a" using assms(1) by (simp_all add: bio.at_def)
  let ?hb = "enc_head (ac_data a k) (lh_block (the_log d s)) n"
  obtain i s1 s' where r: "bread d (lg_start (the_log d s)) s = Done i s1" "b_data (bufs s1 i) = ac_data a k"
      "bnd (bwrite i (set_data i ?hb s1)) (\<lambda>_ s. brelse i s) = Done () s'" "bio.at s p {} s' (put_block k ?hb a)"
    using bio.update_block [of s p d "lg_start (the_log d s)" ?hb] s assms(2) by (auto simp: k_def)
  have "the_log d s1 = the_log d s" using bread_log [OF assms(1,2) r(1)] .
  then have "write_head d s = bnd (bwrite i (set_data i ?hb s1)) (\<lambda>_ s. brelse i s)"
    using r(1,2) assms(3) by (simp add: write_head_def Let_def enc_head_def)
  with r(3,4) show ?thesis by auto
qed

lemma read_head_spec:
  fixes s :: "'z log_st_scheme"
  assumes "bio.at s0 p {} s a" and "can_bread (d, lg_start (the_log d s)) a"
    and "sint (get32 (ac_data a (d, lg_start (the_log d s))) 0) = int n" and "n \<le> LOGSIZE"
  shows "\<exists>s'. read_head d s = Done () s' \<and> bio.at s' p {} s' a \<and> lh_n (the_log d s') = int n
     \<and> lg_start (the_log d s') = lg_start (the_log d s)
     \<and> (\<forall>j < n. lh_block (the_log d s') j = get32 (ac_data a (d, lg_start (the_log d s))) (4 + 4 * j))"
proof -
  let ?k = "(d, lg_start (the_log d s))"
  obtain i s1 where s1: "bread d (lg_start (the_log d s)) s = Done i s1" "bio.at s0 p {(i, ?k)} s1 (a_bread p ?k a)"
    using bio.at_rd [OF assms(1,2)] by auto
  let ?f = "\<lambda>l. l\<lparr>lh_n := int n, lh_block := (\<lambda>j. if int j < int n then get32 (ac_data a ?k) (4 + 4 * j) else lh_block l j)\<rparr>"
  have x: "b_data (bufs s1 i) = ac_data a ?k" using bio.at_data [OF s1(2)] by (simp add: a_bread_def)
  have r: "read_head d s = brelse i (upd_log d ?f s1)"
    unfolding read_head_def s1(1) bnd.simps Let_def x using assms(3,4) by simp
  have "ac_refs a ?k = 0 \<Longrightarrow> ac_data a ?k = ac_disk a ?k" using bio.at_clean [OF assms(1)] .
  with bio.at_relse [OF at_upd_log [OF s1(2), of d ?f], of i ?k] obtain s2 where
    s2: "brelse i (upd_log d ?f s1) = Done () s2" "bio.at (upd_log d ?f s1) p {(i, ?k)} s2 (a_brelse ?k (a_bread p ?k a))"
    by (auto simp: a_bread_def)
  have "a_brelse ?k (a_bread p ?k a) = a"
    using assms(2) by (auto simp: can_bread_def a_brelse_def a_bread_def intro!: acache.equality)
  then show ?thesis
    using r s2 at_log [OF s2(2), of d] bread_log [OF assms(1,2) s1(1), of d] by (auto simp: bio.at_def)
qed

section \<open>Layout of the log\<close>

text \<open>The \<open>j\<close>-th data block of the log, and the blocks of the log with its header.\<close>

definition lkey :: "u32 \<Rightarrow> u32 \<Rightarrow> nat \<Rightarrow> bkey" where
  "lkey d st j = (d, st + of_nat j + 1)"

definition log_area :: "u32 \<Rightarrow> u32 \<Rightarrow> bkey set" where
  "log_area d st = insert (d, st) (lkey d st ` {..<LOGSIZE})"

text \<open>
  A transaction of \<open>n\<close> blocks \<open>bl 0, ..., bl (n - 1)\<close> that the log can hold: different blocks, none in
  the log. One buffer must stay free next to the pinned ones.
\<close>

definition trans_ok :: "u32 \<Rightarrow> u32 \<Rightarrow> nat \<Rightarrow> (nat \<Rightarrow> u32) \<Rightarrow> bool" where
  "trans_ok d st n bl \<longleftrightarrow> n < LOGSIZE \<and> unat d < NDISK \<and> 0 < unat st \<and> unat st + LOGSIZE < 2 ^ 31 \<and> inj_on bl {..<n}
     \<and> (\<forall>j < n. key_ok (d, bl j) \<and> (d, bl j) \<notin> log_area d st)"

lemma log_word:
  assumes "unat (st :: u32) + LOGSIZE < 2 ^ 31" and "j < LOGSIZE"
  shows "unat (st + of_nat j + 1) = unat st + j + 1"
proof -
  have j: "unat (of_nat j :: u32) = j" using assms(2) by (simp add: unat_of_nat LOGSIZE_def)
  have "unat (st + of_nat j) = unat st + j"
    using assms j by (subst unat_plus_simple [THEN iffD1]) (auto simp: word_le_nat_alt unat_word_ariths LOGSIZE_def)
  then show ?thesis
    using assms by (subst unat_plus_simple [THEN iffD1]) (auto simp: word_le_nat_alt unat_word_ariths LOGSIZE_def)
qed

lemma trans_okD:
  assumes "trans_ok d st n bl"
  shows "n < LOGSIZE" "key_ok (d, st)" "\<And>j. j < n \<Longrightarrow> key_ok (lkey d st j)" "\<And>j. j < n \<Longrightarrow> key_ok (d, bl j)"
    "\<And>j. j < n \<Longrightarrow> lkey d st j \<noteq> (d, st)" "\<And>i j. i < n \<Longrightarrow> j < n \<Longrightarrow> (d, bl i) \<noteq> lkey d st j"
    "\<And>j. j < n \<Longrightarrow> bl j \<noteq> st" "inj_on (lkey d st) {..<n}" "inj_on (\<lambda>j. (d, bl j)) {..<n}"
    "\<And>j. j < n \<Longrightarrow> lkey d st j \<in> log_area d st" "\<And>j. j < n \<Longrightarrow> (d, bl j) \<notin> log_area d st"
proof -
  note t = assms [unfolded trans_ok_def]
  have w: "unat (st + of_nat j + 1) = unat st + j + 1" if "j < n" for j using log_word [of st j] t that by simp
  show "n < LOGSIZE" "key_ok (d, st)" using t by (auto simp: key_ok_def)
  show "key_ok (lkey d st j)" "lkey d st j \<noteq> (d, st)" if "j < n" for j
    using t w [OF that] that by (auto simp: key_ok_def lkey_def word_unat_eq_iff)
  show area: "lkey d st j \<in> log_area d st" if "j < n" for j using that t by (auto simp: log_area_def)
  show home: "(d, bl j) \<notin> log_area d st" "key_ok (d, bl j)" if "j < n" for j using that t by auto
  show "(d, bl i) \<noteq> lkey d st j" if "i < n" "j < n" for i j using area [OF that(2)] home [OF that(1)] by metis
  show "bl j \<noteq> st" if "j < n" for j using home(1) [OF that] by (auto simp: log_area_def)
  show "inj_on (lkey d st) {..<n}"
    by (rule inj_onI) (metis Pair_inject add_right_cancel add_left_cancel lessThan_iff lkey_def w)
  show "inj_on (\<lambda>j. (d, bl j)) {..<n}" using t by (auto simp: inj_on_def)
qed

text \<open>Between operations: no block is locked and there is a buffer to spare.\<close>

definition idle :: "acache \<Rightarrow> bool" where
  "idle a \<longleftrightarrow> (\<forall>k. ac_lock a k = None) \<and> (\<forall>k. ac_refs a k + 1 \<noteq> 0) \<and> finite {k. ac_refs a k \<noteq> 0}
     \<and> card {k. ac_refs a k \<noteq> 0} < NBUF"

lemma idle_can_bread: "idle a \<Longrightarrow> key_ok k \<Longrightarrow> can_bread k a"
  unfolding idle_def can_bread_def by blast

lemma idle_put_all [simp]: "idle (put_all ws a) = idle a" "idle (put_block k x a) = idle a"
  by (simp_all add: idle_def put_block_def)

section \<open>Commit on the abstract cache\<close>

definition log_writes :: "u32 \<Rightarrow> u32 \<Rightarrow> nat \<Rightarrow> (nat \<Rightarrow> block) \<Rightarrow> (bkey \<times> block) list" where
  "log_writes d st n x = map (\<lambda>j. (lkey d st j, x j)) [0..<n]"

definition home_writes :: "u32 \<Rightarrow> (nat \<Rightarrow> u32) \<Rightarrow> nat \<Rightarrow> (nat \<Rightarrow> block) \<Rightarrow> (bkey \<times> block) list" where
  "home_writes d bl n x = map (\<lambda>j. ((d, bl j), x j)) [0..<n]"

lemma log_writes_Suc: "log_writes d st (Suc n) x = log_writes d st n x @ [(lkey d st n, x n)]"
  by (simp add: log_writes_def)

lemma home_writes_Suc: "home_writes d bl (Suc n) x = home_writes d bl n x @ [((d, bl n), x n)]"
  by (simp add: home_writes_def)

lemma writes_log_area: "k \<notin> log_area d st \<Longrightarrow> n \<le> LOGSIZE \<Longrightarrow> writes (log_writes d st n x) g k = g k"
  by (rule writes_other) (auto simp: log_writes_def log_area_def)

lemma write_log_spec:
  fixes s :: "'z log_st_scheme"
  assumes "bio.at s p {} s a" and "idle a" and "trans_ok d st n bl" and "lg_start (the_log d s) = st"
    and "lh_n (the_log d s) = int n" and "\<And>j. j < n \<Longrightarrow> lh_block (the_log d s) j = bl j"
    and "\<And>j. j < n \<Longrightarrow> ac_refs a (d, bl j) \<noteq> 0"
  shows "\<exists>s'. write_log d s = Done () s' \<and>
     bio.at s p {} s' (put_all (log_writes d st n (\<lambda>j. ac_data a (d, bl j))) a)"
proof -
  let ?x = "\<lambda>j. ac_data a (d, bl j)" and ?A = "\<lambda>j. put_all (log_writes d st j (\<lambda>j. ac_data a (d, bl j))) a"
  note t = trans_okD [OF assms(3)]
  have "\<exists>s'. each (write_one d) [0..<n] s = Done () s' \<and> bio.at s p {} s' (?A n)"
  proof (rule bio.at_each)
    show "bio.at s p {} s (?A 0)" using assms(1) by (simp add: log_writes_def)
    fix j s1 assume j: "j < n" and at: "bio.at s p {} s1 (?A j)"
    have log: "the_log d s1 = the_log d s" using at by (rule at_log)
    have x: "ac_data (?A j) (d, bl j) = ?x j"
      using writes_log_area [of "(d, bl j)" d st j] t(1) t(11) [OF j] j by simp
    have "\<exists>s'. write_one d j s1 = Done () s' \<and> bio.at s1 p {} s' (put_block (lkey d st j) (ac_data (?A j) (d, bl j)) (?A j))"
      unfolding lkey_def
      using assms(2,4,6,7) t(3,4) t(6) [OF j j, symmetric] j log
      by (intro write_one_spec [OF at] idle_can_bread) (auto simp: lkey_def)
    then show "\<exists>s'. write_one d j s1 = Done () s' \<and> bio.at s1 p {} s' (?A (Suc j))"
      unfolding x by (simp add: log_writes_Suc)
  qed
  then show ?thesis by (simp add: write_log_def assms(5))
qed

text \<open>The reference counts after the first \<open>j\<close> home blocks have been unpinned.\<close>

definition unpinned :: "u32 \<Rightarrow> (nat \<Rightarrow> u32) \<Rightarrow> nat \<Rightarrow> (bkey \<Rightarrow> u32) \<Rightarrow> bkey \<Rightarrow> u32" where
  "unpinned d bl j R k = (if k \<in> (\<lambda>i. (d, bl i)) ` {..<j} then R k - 1 else R k)"

definition installed :: "u32 \<Rightarrow> (nat \<Rightarrow> u32) \<Rightarrow> nat \<Rightarrow> (nat \<Rightarrow> block) \<Rightarrow> acache \<Rightarrow> acache" where
  "installed d bl j x a = (put_all (home_writes d bl j x) a)\<lparr>ac_refs := unpinned d bl j (ac_refs a)\<rparr>"

lemma installed_simps [simp]:
  "ac_refs (installed d bl j x a) = unpinned d bl j (ac_refs a)" "ac_lock (installed d bl j x a) = ac_lock a"
  "ac_data (installed d bl j x a) = writes (home_writes d bl j x) (ac_data a)"
  "ac_disk (installed d bl j x a) = writes (home_writes d bl j x) (ac_disk a)"
  "ac_trace (installed d bl j x a) = ac_trace a @ home_writes d bl j x"
  by (simp_all add: installed_def)

lemma installed_Suc:
  assumes "inj_on (\<lambda>j. (d, bl j)) {..<Suc j}"
  shows "installed d bl (Suc j) x a = a_bunpin (d, bl j) (put_block (d, bl j) (x j) (installed d bl j x a))"
proof -
  have "(d, bl j) \<notin> (\<lambda>i. (d, bl i)) ` {..<j}"
    using assms by (auto simp: inj_on_def lessThan_Suc)
  then have "unpinned d bl (Suc j) R = (unpinned d bl j R)((d, bl j) := unpinned d bl j R (d, bl j) - 1)" for R
    by (intro ext) (auto simp: unpinned_def lessThan_Suc)
  then show ?thesis
    by (intro acache.equality) (simp_all add: a_bunpin_def put_block_def home_writes_Suc)
qed

lemma install_trans_spec:
  fixes s :: "'z log_st_scheme"
  assumes "bio.at s p {} s a" and "trans_ok d st n bl" and "lg_start (the_log d s) = st"
    and "lh_n (the_log d s) = int n" and "\<And>j. j < n \<Longrightarrow> lh_block (the_log d s) j = bl j"
    and "\<And>j. j < n \<Longrightarrow> ac_data a (lkey d st j) = x j"
    and "\<And>j. j < n \<Longrightarrow> can_bread (lkey d st j) (installed d bl j x a)"
    and "\<And>j. j < n \<Longrightarrow> can_bread (d, bl j) (a_bread p (lkey d st j) (installed d bl j x a))"
  shows "\<exists>s'. install_trans d s = Done () s' \<and> bio.at s p {} s' (installed d bl n x a)"
proof -
  let ?A = "\<lambda>j. installed d bl j x a"
  note t = trans_okD [OF assms(2)]
  have "\<exists>s'. each (install_one d) [0..<n] s = Done () s' \<and> bio.at s p {} s' (?A n)"
  proof (rule bio.at_each)
    have "?A 0 = a" by (intro acache.equality) (simp_all add: home_writes_def unpinned_def fun_eq_iff)
    then show "bio.at s p {} s (?A 0)" using assms(1) by simp
    fix j s1 assume j: "j < n" and at: "bio.at s p {} s1 (?A j)"
    have log: "the_log d s1 = the_log d s" using at by (rule at_log)
    have "lkey d st j \<notin> fst ` set (home_writes d bl j x)" using t(6) j by (auto simp: home_writes_def) (metis less_trans)
    then have x: "ac_data (?A j) (lkey d st j) = x j" using assms(6) j by (simp add: writes_other)
    have "\<exists>s'. install_one d j s1 = Done () s' \<and>
        bio.at s1 p {} s' (a_bunpin (d, bl j) (put_block (d, bl j) (ac_data (?A j) (lkey d st j)) (?A j)))"
      unfolding lkey_def
      using assms(3,5,7,8) t(6) j log by (intro install_one_spec [OF at]) (auto simp: lkey_def)
    moreover have "inj_on (\<lambda>j. (d, bl j)) {..<Suc j}" using t(9) j by (auto intro: inj_on_subset)
    ultimately show "\<exists>s'. install_one d j s1 = Done () s' \<and> bio.at s1 p {} s' (?A (Suc j))"
      unfolding x by (simp add: installed_Suc)
  qed
  then show ?thesis by (simp add: install_trans_def assms(4))
qed

lemma idle_installed:
  assumes "idle a" and "\<And>j. j < m \<Longrightarrow> ac_refs a (d, bl j) \<noteq> 0"
  shows "idle (installed d bl m x a)"
proof -
  let ?R = "{k. ac_refs a k \<noteq> 0}" and ?U = "{k. unpinned d bl m (ac_refs a) k \<noteq> 0}"
  have "?U \<subseteq> ?R" using assms(2) by (auto simp: unpinned_def)
  moreover have fin: "finite ?R" "card ?R < NBUF" using assms(1) by (simp_all add: idle_def)
  ultimately have "finite ?U" "card ?U < NBUF"
    using finite_subset [OF _ fin(1)] card_mono [OF fin(1), of ?U] by simp_all
  moreover have "unpinned d bl m (ac_refs a) k + 1 \<noteq> 0" for k
    using assms unfolding idle_def unpinned_def by (cases k) auto
  ultimately show ?thesis using assms(1) unfolding idle_def by simp
qed

lemma install_can_bread:
  assumes "idle a" and "trans_ok d st n bl" and "\<And>j. j < n \<Longrightarrow> ac_refs a (d, bl j) \<noteq> 0" and "j < n"
  shows "can_bread (lkey d st j) (installed d bl j x a)"
    and "can_bread (d, bl j) (a_bread p (lkey d st j) (installed d bl j x a))"
proof -
  note t = trans_okD [OF assms(2)]
  have i: "idle (installed d bl j x a)" using assms by (intro idle_installed) auto
  then show 1: "can_bread (lkey d st j) (installed d bl j x a)" using t(3) [OF assms(4)] by (rule idle_can_bread)
  have "(d, bl j) \<notin> (\<lambda>i. (d, bl i)) ` {..<j}" using t(9) assms(4)
    by (auto simp: inj_on_def) (metis lessThan_iff less_trans less_irrefl)
  then have "ac_refs (installed d bl j x a) (d, bl j) \<noteq> 0" using assms(3,4) by (simp add: unpinned_def)
  with 1 idle_can_bread [OF i t(4) [OF assms(4)]] t(6) [OF assms(4,4)]
  show "can_bread (d, bl j) (a_bread p (lkey d st j) (installed d bl j x a))"
    by (simp add: can_bread_def a_bread_def)
qed

lemma put_blocks_get:
  "n \<le> 255 \<Longrightarrow> j < n \<Longrightarrow> get32 (put_blocks hb f n) (4 + 4 * j) = f j"
  "n \<le> 255 \<Longrightarrow> get32 (put_blocks hb f n) 0 = get32 hb 0"
  by (induction n) (auto simp: less_Suc_eq get32_put32_other)

lemma enc_head_get:
  assumes "n \<le> LOGSIZE"
  shows "get32 (enc_head hb f n) 0 = of_nat n" "sint (get32 (enc_head hb f n) 0) = int n"
    "j < n \<Longrightarrow> get32 (enc_head hb f n) (4 + 4 * j) = f j"
  using assms by (simp_all add: enc_head_def put_blocks_get LOGSIZE_def sint_uint unsigned_of_nat take_bit_nat_eq_self
      signed_take_bit_int_eq_self)

text \<open>The writes of a commit, in order.\<close>

definition commit_writes :: "u32 \<Rightarrow> u32 \<Rightarrow> nat \<Rightarrow> (nat \<Rightarrow> u32) \<Rightarrow> acache \<Rightarrow> (bkey \<times> block) list" where
  "commit_writes d st n bl a =
     (let x = (\<lambda>j. ac_data a (d, bl j)); h = enc_head (ac_data a (d, st)) bl n
      in log_writes d st n x @ [((d, st), h)] @ home_writes d bl n x @ [((d, st), enc_head h bl 0)])"

lemma home_writes_keys: "fst ` set (home_writes d bl n x) = (\<lambda>j. (d, bl j)) ` {..<n}"
  by (simp add: home_writes_def image_image lessThan_atLeast0)

lemma log_writes_keys: "fst ` set (log_writes d st n x) = lkey d st ` {..<n}"
  by (simp add: log_writes_def image_image lessThan_atLeast0)

lemma writes_home:
  "inj_on (\<lambda>j. (d, bl j)) {..<n} \<Longrightarrow> j < n \<Longrightarrow> writes (home_writes d bl n x) g (d, bl j) = x j"
  by (rule writes_last) (auto simp: home_writes_def distinct_map inj_on_def)

lemma writes_log:
  "inj_on (lkey d st) {..<n} \<Longrightarrow> j < n \<Longrightarrow> writes (log_writes d st n x) g (lkey d st j) = x j"
  by (rule writes_last) (auto simp: log_writes_def distinct_map inj_on_def)

lemma commit_spec:
  fixes s :: "'z log_st_scheme"
  assumes "running s p" and "cache_ok s" and "idle (bc_abs s)" and "0 < n"
    and "trans_ok d (lg_start (the_log d s)) n (lh_block (the_log d s))" and "lh_n (the_log d s) = int n"
    and "\<And>j. j < n \<Longrightarrow> ac_refs (bc_abs s) (d, lh_block (the_log d s) j) \<noteq> 0"
  shows "\<exists>s'. commit d s = Done () s' \<and> cache_ok s' \<and> lh_n (the_log d s') = 0
     \<and> dtrace s' = dtrace s @ commit_writes d (lg_start (the_log d s)) n (lh_block (the_log d s)) (bc_abs s)
     \<and> disk s' = writes (commit_writes d (lg_start (the_log d s)) n (lh_block (the_log d s)) (bc_abs s)) (disk s)"
proof -
  define st bl a where sba: "st = lg_start (the_log d s)" "bl = lh_block (the_log d s)" "a = bc_abs s"
  define x h where xh: "x = (\<lambda>j. ac_data a (d, bl j))" "h = enc_head (ac_data a (d, st)) bl n"
  note t = trans_okD [OF assms(5) [folded sba]]
  have a0: "bio.at s p {} s a" using assms(1,2) sba(3) by (simp add: bio.at_def)
  have idle: "idle a" using assms(3) sba(3) by simp
  let ?a1 = "put_all (log_writes d st n x) a"
  obtain s1 where s1: "write_log d s = Done () s1" "bio.at s p {} s1 ?a1"
    using write_log_spec [OF a0 idle assms(5) [folded sba], unfolded sba] assms(6,7) unfolding xh sba by auto
  have l1: "the_log d s1 = the_log d s" using s1(2) by (rule at_log)
  have h0: "ac_data ?a1 (d, st) = ac_data a (d, st)"
  proof -
    have "(d, st) \<notin> fst ` set (log_writes d st n x)" using t(5) unfolding log_writes_keys by fastforce
    then show ?thesis by (simp add: writes_other)
  qed
  let ?a2 = "put_block (d, st) h ?a1"
  obtain s2 where s2: "write_head d s1 = Done () s2" "bio.at s1 p {} s2 ?a2"
    using write_head_spec [OF s1(2), of d n] idle_can_bread [OF _ t(2)] idle l1 assms(6) h0 by (auto simp: sba xh)
  have l2: "the_log d s2 = the_log d s" using at_log [OF s2(2)] l1 by simp
  have idle2: "idle ?a2" using idle by simp
  have ref2: "ac_refs ?a2 (d, bl j) \<noteq> 0" if "j < n" for j using assms(7) that by (simp add: put_block_def sba)
  have x2: "ac_data ?a2 (lkey d st j) = x j" if "j < n" for j
    using t(5) [OF that] writes_log [OF t(8) that] by (simp add: put_block_def)
  obtain s3 where s3: "install_trans d s2 = Done () s3" "bio.at s2 p {} s3 (installed d bl n x ?a2)"
    using install_trans_spec [OF bio.at_restart [OF s2(2)] assms(5) [folded sba], of x] l2 assms(6) x2
      install_can_bread [OF idle2 assms(5) [folded sba] ref2] by (auto simp: sba)
  have l3: "the_log d s3 = the_log d s" using at_log [OF s3(2)] l2 by simp
  let ?f = "\<lambda>l. l\<lparr>lh_n := 0\<rparr>"
  have h3: "ac_data (installed d bl n x ?a2) (d, st) = h"
  proof -
    have "(d, st) \<notin> fst ` set (home_writes d bl n x)" using t(7) unfolding home_writes_keys by fastforce
    then show ?thesis by (simp add: writes_other put_block_def)
  qed
  have c3: "can_bread (d, st) (installed d bl n x ?a2)"
    using idle_installed [OF idle2 ref2] t(2) by (rule idle_can_bread)
  obtain s4 where s4: "write_head d (upd_log d ?f s3) = Done () s4"
      "bio.at (upd_log d ?f s3) p {} s4 (put_block (d, st) (enc_head h bl 0) (installed d bl n x ?a2))"
    using write_head_spec [OF at_upd_log [OF s3(2), of d ?f], where d = d and n = 0] c3 h3 l3 by (auto simp: sba)
  have "commit d s = Done () s4" using s1(1) s2(1) s3(1) s4(1) assms(4,6) by (simp add: commit_def)
  moreover have "cache_ok s4" and b4: "bc_abs s4 = put_block (d, st) (enc_head h bl 0) (installed d bl n x ?a2)"
    using s4(2) by (auto simp: bio.at_def)
  moreover have "lh_n (the_log d s4) = 0" using at_log [OF s4(2)] by simp
  moreover have w: "commit_writes d st n bl a = log_writes d st n x @ [((d, st), h)] @ home_writes d bl n x @ [((d, st), enc_head h bl 0)]"
    by (simp add: commit_writes_def Let_def xh)
  have "dtrace s4 = dtrace s @ commit_writes d st n bl a" "disk s4 = writes (commit_writes d st n bl a) (disk s)"
    using arg_cong [OF b4, of ac_trace] arg_cong [OF b4, of ac_disk] sba(3) unfolding w
    by (simp_all add: put_block_def writes_Cons)
  ultimately show ?thesis unfolding sba [symmetric] by blast
qed

section \<open>Recovery\<close>

text \<open>
  In recovery the home blocks are not pinned, so that after \<open>install_trans\<close> their reference
  counts are one below zero: those buffers are never free again.
\<close>

lemma recover_can_bread:
  assumes "trans_ok d st n bl" and "j < n"
  shows "can_bread (lkey d st j) (installed d bl j x (empty_cache dk t))"
    and "can_bread (d, bl j) (a_bread p (lkey d st j) (installed d bl j x (empty_cache dk t)))"
proof -
  note t = trans_okD [OF assms(1)]
  let ?H = "(\<lambda>i. (d, bl i)) ` {..<j}"
  have c: "card ?H \<le> j" using card_image_le [of "{..<j}" "\<lambda>i. (d, bl i)"] by simp
  have R: "{k. unpinned d bl j (\<lambda>_. 0) k \<noteq> 0} = ?H" by (auto simp: unpinned_def)
  have l: "lkey d st j \<notin> ?H" using t(6) assms(2) by (auto dest: less_trans) (metis less_trans)
  have h: "(d, bl j) \<notin> ?H" using t(9) assms(2) by (auto simp: inj_on_def) (metis lessThan_iff less_trans less_irrefl)
  have lt: "Suc j < NBUF" using assms(2) t(1) by (simp add: LOGSIZE_def NBUF_def)
  show "can_bread (lkey d st j) (installed d bl j x (empty_cache dk t))"
    using t(3) [OF assms(2)] l c lt R by (simp add: can_bread_def empty_cache_def unpinned_def)
  have "{k. ((unpinned d bl j (\<lambda>_. 0))(lkey d st j := 1)) k \<noteq> 0} = insert (lkey d st j) ?H" using R by auto
  then have "card {k. ((unpinned d bl j (\<lambda>_. 0))(lkey d st j := 1)) k \<noteq> 0} < NBUF"
    using c l lt by simp
  then show "can_bread (d, bl j) (a_bread p (lkey d st j) (installed d bl j x (empty_cache dk t)))"
    using t(4) [OF assms(2)] t(6) [OF assms(2,2)] l h by (simp add: can_bread_def a_bread_def empty_cache_def unpinned_def)
qed

text \<open>The first operation on a fresh cache over a disk \<open>dk\<close>.\<close>

definition fresh :: "'z log_st_scheme \<Rightarrow> int \<Rightarrow> (bkey \<Rightarrow> block) \<Rightarrow> bool" where
  "fresh r p dk \<longleftrightarrow> running r p \<and> cache_ok r \<and> (\<exists>t. bc_abs r = empty_cache dk t)"

text \<open>The disk that recovery leaves, for a header that says \<open>n\<close>.\<close>

definition recovered :: "u32 \<Rightarrow> u32 \<Rightarrow> nat \<Rightarrow> (bkey \<Rightarrow> block) \<Rightarrow> bkey \<Rightarrow> block" where
  "recovered d st n dk =
     (writes (home_writes d (\<lambda>j. get32 (dk (d, st)) (4 + 4 * j)) n (\<lambda>j. dk (lkey d st j))) dk)
       ((d, st) := put32 (dk (d, st)) 0 0)"

lemma recover_spec:
  fixes r :: "'z log_st_scheme"
  assumes "fresh r p dk" and "lg_start (the_log d r) = st" and "sint (get32 (dk (d, st)) 0) = int n"
    and "trans_ok d st n (\<lambda>j. get32 (dk (d, st)) (4 + 4 * j))"
  shows "\<exists>r'. recover_from_log d r = Done () r' \<and> disk r' = recovered d st n dk \<and> cache_ok r'
     \<and> running r' p \<and> ac_lock (bc_abs r') = (\<lambda>_. None) \<and> ac_refs (bc_abs r') = unpinned d (\<lambda>j. get32 (dk (d, st)) (4 + 4 * j)) n (\<lambda>_. 0)"
proof -
  let ?bl = "\<lambda>j. get32 (dk (d, st)) (4 + 4 * j)" and ?x = "\<lambda>j. dk (lkey d st j)"
  note t = trans_okD [OF assms(4)]
  obtain tr where a: "bc_abs r = empty_cache dk tr" and r: "running r p" "cache_ok r"
    using assms(1) by (auto simp: fresh_def)
  let ?a = "empty_cache dk tr"
  have r0: "bio.at r p {} r ?a" using a r by (simp add: bio.at_def)
  have "idle ?a" by (simp add: idle_def empty_cache_def NBUF_def)
  then have c0: "can_bread (d, st) ?a" using t(2) by (rule idle_can_bread)
  obtain r1 where r1: "read_head d r = Done () r1" "bio.at r1 p {} r1 ?a" "lh_n (the_log d r1) = int n"
      "lg_start (the_log d r1) = st" "\<And>j. j < n \<Longrightarrow> lh_block (the_log d r1) j = ?bl j"
    using read_head_spec [OF r0, of d n] assms(2,3) c0 t(1) by (auto simp: empty_cache_def)
  obtain r2 where r2: "install_trans d r1 = Done () r2" "bio.at r1 p {} r2 (installed d ?bl n ?x ?a)"
    using install_trans_spec [OF r1(2) assms(4) r1(4,3,5), of ?x] recover_can_bread [OF assms(4)]
    by (auto simp: empty_cache_def)
  let ?f = "\<lambda>l. l\<lparr>lh_n := 0\<rparr>"
  have l2: "the_log d r2 = the_log d r1" using r2(2) by (rule at_log)
  have nh: "(d, st) \<notin> (\<lambda>j. (d, ?bl j)) ` {..<n}" using t(7) [symmetric] by blast
  have "can_bread (d, st) (installed d ?bl n ?x ?a)"
  proof -
    have "card ((\<lambda>i. (d, ?bl i)) ` {..<n}) \<le> n" using card_image_le [of "{..<n}" "\<lambda>i. (d, ?bl i)"] by simp
    moreover have "{k. unpinned d ?bl n (\<lambda>_. 0) k \<noteq> 0} = (\<lambda>i. (d, ?bl i)) ` {..<n}" by (auto simp: unpinned_def)
    ultimately show ?thesis
      using t(1,2) nh by (simp add: can_bread_def empty_cache_def unpinned_def LOGSIZE_def NBUF_def)
  qed
  with write_head_spec [OF at_upd_log [OF r2(2), of d ?f], where d = d and n = 0] r1(4) l2 nh
  obtain r3 where r3: "write_head d (upd_log d ?f r2) = Done () r3"
      "bio.at (upd_log d ?f r2) p {} r3 (put_block (d, st) (put32 (dk (d, st)) 0 0) (installed d ?bl n ?x ?a))"
    by (auto simp: enc_head_def writes_other home_writes_keys empty_cache_def)
  have b: "bc_abs r3 = put_block (d, st) (put32 (dk (d, st)) 0 0) (installed d ?bl n ?x ?a)" "cache_ok r3" "running r3 p"
    using r3(2) by (auto simp: bio.at_def)
  have "disk r3 = recovered d st n dk"
    using arg_cong [OF b(1), of ac_disk] by (simp add: put_block_def recovered_def empty_cache_def)
  moreover have "ac_refs (bc_abs r3) = unpinned d ?bl n (\<lambda>_. 0)" "ac_lock (bc_abs r3) = (\<lambda>_. None)"
    unfolding b(1) by (simp_all add: put_block_def empty_cache_def)
  ultimately show ?thesis using r1(1) r2(1) r3(1) b(2,3) by (simp add: recover_from_log_def)
qed

lemma initlog_spec:
  fixes r :: "'z log_st_scheme"
  assumes "fresh r p dk" and "sb_logstart sb = st" and "sint (get32 (dk (d, st)) 0) = int n"
    and "trans_ok d st n (\<lambda>j. get32 (dk (d, st)) (4 + 4 * j))"
  shows "\<exists>r'. initlog d sb r = Done () r' \<and> disk r' = recovered d st n dk \<and> cache_ok r'
     \<and> running r' p \<and> ac_lock (bc_abs r') = (\<lambda>_. None) \<and> ac_refs (bc_abs r') = unpinned d (\<lambda>j. get32 (dk (d, st)) (4 + 4 * j)) n (\<lambda>_. 0)"
proof -
  let ?r = "upd_log d (\<lambda>l. l\<lparr>lg_start := sb_logstart sb, lg_size := sint (sb_nlog sb), lg_dev := d\<rparr>) r"
  have "fresh ?r p dk" using assms(1) by (simp add: fresh_def)
  from recover_spec [OF this _ assms(3,4)] assms(2) show ?thesis
    by (simp add: initlog_def LOGSIZE_def BSIZE_def)
qed

section \<open>Crash atomicity\<close>

text \<open>A state in which \<open>commit\<close> is called: the transaction fits, its blocks are pinned, every block changed in the cache is logged, and the log on disk is empty.\<close>

definition commit_ready :: "u32 \<Rightarrow> nat \<Rightarrow> 'z log_st_scheme \<Rightarrow> bool" where
  "commit_ready d n s \<longleftrightarrow> (let l = the_log d s; a = bc_abs s in
     cache_ok s \<and> idle a \<and> 0 < n \<and> lh_n l = int n \<and> trans_ok d (lg_start l) n (lh_block l)
     \<and> (\<forall>j < n. ac_refs a (d, lh_block l j) \<noteq> 0)
     \<and> (\<forall>k. k \<notin> log_area d (lg_start l) \<longrightarrow> k \<notin> (\<lambda>j. (d, lh_block l j)) ` {..<n} \<longrightarrow> ac_data a k = disk s k)
     \<and> get32 (disk s (d, lg_start l)) 0 = 0)"

text \<open>The disk when the machine stops after \<open>m\<close> of the writes of a commit, and its recovery.\<close>

lemma crash_before:
  fixes a :: acache and dk :: "bkey \<Rightarrow> block"
  assumes "trans_ok d st n bl" and "m \<le> n" and "get32 (dk (d, st)) 0 = 0"
  defines "c \<equiv> writes (take m (commit_writes d st n bl a)) dk"
  shows "get32 (c (d, st)) 0 = 0" and "k \<notin> log_area d st \<Longrightarrow> c k = dk k"
proof -
  have "take m (commit_writes d st n bl a) = log_writes d st m (\<lambda>j. ac_data a (d, bl j))"
    using assms(2) by (simp add: commit_writes_def Let_def log_writes_def take_map min_def)
  then have c: "c = writes (log_writes d st m (\<lambda>j. ac_data a (d, bl j))) dk" by (simp add: c_def)
  have "(d, st) \<notin> lkey d st ` {..<m}" using trans_okD(5) [OF assms(1)] assms(2) by (metis imageE lessThan_iff less_le_trans)
  then show "get32 (c (d, st)) 0 = 0" unfolding c using assms(3) by (simp add: writes_other log_writes_keys)
  show "c k = dk k" if "k \<notin> log_area d st"
    unfolding c using writes_log_area [OF that] trans_okD(1) [OF assms(1)] assms(2) by simp
qed

lemma commit_writes_split:
  "commit_writes d st n bl a = log_writes d st n (\<lambda>j. ac_data a (d, bl j)) @
     ((d, st), enc_head (ac_data a (d, st)) bl n) # home_writes d bl n (\<lambda>j. ac_data a (d, bl j)) @
     [((d, st), enc_head (enc_head (ac_data a (d, st)) bl n) bl 0)]"
  by (simp add: commit_writes_def Let_def)

lemma crash_after:
  fixes a :: acache and dk :: "bkey \<Rightarrow> block"
  assumes "trans_ok d st n bl" and "i \<le> n"
  defines "c \<equiv> writes (take (Suc n + i) (commit_writes d st n bl a)) dk"
  shows "c (d, st) = enc_head (ac_data a (d, st)) bl n" and "j < n \<Longrightarrow> c (lkey d st j) = ac_data a (d, bl j)"
    and "k \<notin> log_area d st \<Longrightarrow> k \<notin> (\<lambda>j. (d, bl j)) ` {..<n} \<Longrightarrow> c k = dk k"
proof -
  note t = trans_okD [OF assms(1)]
  let ?x = "\<lambda>j. ac_data a (d, bl j)" and ?h = "enc_head (ac_data a (d, st)) bl n"
  have "take (Suc n + i) (commit_writes d st n bl a) = log_writes d st n ?x @ ((d, st), ?h) # home_writes d bl i ?x"
    unfolding commit_writes_split using assms(2) by (simp add: log_writes_def home_writes_def take_map min_def)
  then have c: "c = writes (home_writes d bl i ?x) ((writes (log_writes d st n ?x) dk)((d, st) := ?h))"
    by (simp add: c_def writes_Cons)
  have hk: "k \<notin> (\<lambda>j. (d, bl j)) ` {..<n} \<Longrightarrow> k \<notin> fst ` set (home_writes d bl i ?x)" for k
    using assms(2) by (auto simp: home_writes_keys)
  have "(d, st) \<notin> (\<lambda>j. (d, bl j)) ` {..<n}" using t(7) [symmetric] by blast
  from hk [OF this] show "c (d, st) = ?h" unfolding c by (simp add: writes_other)
  show "c (lkey d st j) = ?x j" if "j < n"
  proof -
    have "lkey d st j \<notin> (\<lambda>j. (d, bl j)) ` {..<n}" using t(6) [OF _ that, symmetric] by blast
    from hk [OF this] show ?thesis unfolding c using t(5) [OF that] writes_log [OF t(8) that] by (simp add: writes_other)
  qed
  show "c k = dk k" if "k \<notin> log_area d st" "k \<notin> (\<lambda>j. (d, bl j)) ` {..<n}"
    unfolding c using hk [OF that(2)] writes_log_area [OF that(1)] that(1) t(1)
    by (auto simp: writes_other log_area_def)
qed

lemma crash_done:
  fixes a :: acache and dk :: "bkey \<Rightarrow> block"
  assumes "trans_ok d st n bl"
  defines "c \<equiv> writes (commit_writes d st n bl a) dk"
  shows "get32 (c (d, st)) 0 = 0" and "j < n \<Longrightarrow> c (d, bl j) = ac_data a (d, bl j)"
    and "k \<notin> log_area d st \<Longrightarrow> k \<notin> (\<lambda>j. (d, bl j)) ` {..<n} \<Longrightarrow> c k = dk k"
proof -
  note t = trans_okD [OF assms(1)]
  show "get32 (c (d, st)) 0 = 0"
    unfolding c_def commit_writes_split using enc_head_get(1) [of 0] by (simp add: writes_Cons)
  show "c (d, bl j) = ac_data a (d, bl j)" if "j < n"
    unfolding c_def commit_writes_split using t(7) [OF that] writes_home [OF t(9) that] by (simp add: writes_Cons)
  show "c k = dk k" if "k \<notin> log_area d st" "k \<notin> (\<lambda>j. (d, bl j)) ` {..<n}"
    unfolding c_def commit_writes_split using that writes_log_area [OF that(1)] t(1)
    by (auto simp: writes_Cons writes_other home_writes_keys log_area_def)
qed

lemma recovered_empty: "k \<noteq> (d, st) \<Longrightarrow> recovered d st 0 dk k = dk k"
  by (simp add: recovered_def home_writes_def)

lemma trans_ok_empty: "trans_ok d st n bl \<Longrightarrow> trans_ok d st 0 bl'"
  by (simp add: trans_ok_def)

lemma recover_crash:
  fixes r :: "'z log_st_scheme"
  assumes "trans_ok d st n bl" and "get32 (dk (d, st)) 0 = 0" and "m \<le> length (commit_writes d st n bl a)"
    and "fresh r p (writes (take m (commit_writes d st n bl a)) dk)" and "sb_logstart sb = st"
    and "\<And>k. k \<notin> log_area d st \<Longrightarrow> k \<notin> (\<lambda>j. (d, bl j)) ` {..<n} \<Longrightarrow> ac_data a k = dk k"
  shows "\<exists>r'. initlog d sb r = Done () r' \<and>
     ((\<forall>k. k \<notin> log_area d st \<longrightarrow> disk r' k = dk k) \<or> (\<forall>k. k \<notin> log_area d st \<longrightarrow> disk r' k = ac_data a k))"
proof -
  note t = trans_okD [OF assms(1)]
  let ?c = "writes (take m (commit_writes d st n bl a)) dk"
  have hd: "k \<notin> log_area d st \<Longrightarrow> k \<noteq> (d, st)" for k by (auto simp: log_area_def)
  have len: "length (commit_writes d st n bl a) = 2 * n + 2"
    by (simp add: commit_writes_split log_writes_def home_writes_def)
  have "m \<le> n \<or> (\<exists>i. m = Suc n + i \<and> i \<le> n) \<or> m = 2 * n + 2" using assms(3) unfolding len by presburger
  then consider "m \<le> n" | i where "m = Suc n + i" "i \<le> n" | "m = 2 * n + 2" by blast
  then show ?thesis
  proof cases
    case 1
    note c = crash_before [where dk = dk and a = a, OF assms(1) 1 assms(2)]
    have "\<exists>r'. initlog d sb r = Done () r' \<and> disk r' = recovered d st 0 ?c"
      using initlog_spec [OF assms(4,5), of d 0] c(1) trans_ok_empty [OF assms(1)] by auto
    then show ?thesis using c(2) hd by (auto simp: recovered_empty)
  next
    case (2 i)
    note c = crash_after [where dk = dk and a = a, OF assms(1) 2(2), folded 2(1)]
    have g: "sint (get32 (?c (d, st)) 0) = int n" "\<And>j. j < n \<Longrightarrow> get32 (?c (d, st)) (4 + 4 * j) = bl j"
      unfolding c(1) using enc_head_get t(1) by auto
    have "trans_ok d st n (\<lambda>j. get32 (?c (d, st)) (4 + 4 * j))"
      using assms(1) g(2) by (auto simp: trans_ok_def inj_on_def)
    from initlog_spec [OF assms(4,5) g(1) this] obtain r' where
      r': "initlog d sb r = Done () r'" "disk r' = recovered d st n ?c" by blast
    have hw: "home_writes d (\<lambda>j. get32 (?c (d, st)) (4 + 4 * j)) n (\<lambda>j. ?c (lkey d st j)) = home_writes d bl n (\<lambda>j. ac_data a (d, bl j))"
      unfolding home_writes_def using g(2) c(2) by simp
    have "disk r' k = ac_data a k" if "k \<notin> log_area d st" for k
    proof (cases "k \<in> (\<lambda>j. (d, bl j)) ` {..<n}")
      case True
      then show ?thesis unfolding r'(2) recovered_def hw using hd [OF that] writes_home [OF t(9)] by auto
    next
      case False
      then show ?thesis
        unfolding r'(2) recovered_def hw using hd [OF that] c(3) [OF that] assms(6) [OF that]
        by (simp add: writes_other home_writes_keys)
    qed
    then show ?thesis using r'(1) by blast
  next
    case 3
    then have all: "?c = writes (commit_writes d st n bl a) dk" using len by simp
    note c = crash_done [where dk = dk and a = a, OF assms(1), folded all]
    have "\<exists>r'. initlog d sb r = Done () r' \<and> disk r' = recovered d st 0 ?c"
      using initlog_spec [OF assms(4,5), of d 0] c(1) trans_ok_empty [OF assms(1)] by auto
    moreover have "?c k = ac_data a k" if "k \<notin> log_area d st" for k
      using c(2,3) assms(6) that by (cases "k \<in> (\<lambda>j. (d, bl j)) ` {..<n}") auto
    ultimately show ?thesis using hd by (auto simp: recovered_empty)
  qed
qed

text \<open>
  C1: crash atomicity of the log. When a transaction is ready to commit, \<open>commit\<close> returns and
  every block outside the log then has on disk the contents it had in the cache. Moreover, if the machine
  stops after any number of the disk writes of the commit, then booting from the disk as it is at that point,
  with a fresh buffer cache, and running \<open>initlog\<close> returns, and leaves outside the log either the
  disk from before the commit or the disk with all of the transaction.
\<close>

theorem commit_crash_atomic:
  fixes s :: "'z log_st_scheme"
  assumes "running s p" and "commit_ready d n s"
  shows "\<exists>s' W. commit d s = Done () s' \<and> dtrace s' = dtrace s @ W \<and> disk s' = writes W (disk s)
     \<and> (\<forall>k. k \<notin> log_area d (lg_start (the_log d s)) \<longrightarrow> disk s' k = ac_data (bc_abs s) k)
     \<and> (\<forall>m q sb. \<forall>r :: 'z log_st_scheme. m \<le> length W \<and> fresh r q (writes (take m W) (disk s)) \<and> sb_logstart sb = lg_start (the_log d s) \<longrightarrow>
          (\<exists>r'. initlog d sb r = Done () r' \<and>
             ((\<forall>k. k \<notin> log_area d (lg_start (the_log d s)) \<longrightarrow> disk r' k = disk s k)
              \<or> (\<forall>k. k \<notin> log_area d (lg_start (the_log d s)) \<longrightarrow> disk r' k = ac_data (bc_abs s) k))))"
proof -
  define st bl a where sba: "st = lg_start (the_log d s)" "bl = lh_block (the_log d s)" "a = bc_abs s"
  note c = assms(2) [unfolded commit_ready_def Let_def, folded sba]
  have t: "trans_ok d st n bl" and clean: "get32 (disk s (d, st)) 0 = 0"
    and same: "\<And>k. k \<notin> log_area d st \<Longrightarrow> k \<notin> (\<lambda>j. (d, bl j)) ` {..<n} \<Longrightarrow> ac_data a k = disk s k"
    using c by blast+
  let ?W = "commit_writes d st n bl a"
  obtain s' where s': "commit d s = Done () s'" "dtrace s' = dtrace s @ ?W" "disk s' = writes ?W (disk s)"
    using commit_spec [OF assms(1), of n d] c unfolding sba by auto
  have "disk s' k = ac_data a k" if "k \<notin> log_area d st" for k
    unfolding s'(3) using crash_done(2,3) [OF t, of _ a "disk s"] same that
    by (cases "k \<in> (\<lambda>j. (d, bl j)) ` {..<n}") auto
  then show ?thesis
    unfolding sba(1) [symmetric] sba(3) [symmetric]
    using s' recover_crash [where dk = "disk s", OF t clean _ _ _ same] by blast
qed

text \<open>A fresh kernel over a disk, and one with a transaction of one block that is ready to commit.\<close>

definition boot_log :: "(bkey \<Rightarrow> block) \<Rightarrow> log \<Rightarrow> log_st" where
  "boot_log d l = binit (bcache_st.extend (boot_raw d) \<lparr>logs = (\<lambda>_. l)\<rparr>)"

definition one_log :: log where
  "one_log = \<lparr>lg_start = 2, lg_size = 30, lg_outstanding = 0, lg_committing = True, lg_dev = 0, lh_n = 1, lh_block = (\<lambda>_. 50)\<rparr>"

definition dirty_buf :: buf where
  "dirty_buf = boot_buf\<lparr>b_valid := True, b_blockno := 50, b_refcnt := 1, b_data := (\<lambda>_. 7)\<rparr>"

definition one_trans :: log_st where
  "one_trans = upd_buf 0 (\<lambda>_. dirty_buf) (boot_log (\<lambda>_ _. 0) one_log)"

lemma boot_log_spec:
  "cache_ok (boot_log d l)" "bc_abs (boot_log d l) = empty_cache d []" "running (boot_log d l) 0"
  "the_log i (boot_log d l) = l" "disk (boot_log d l) = d" "\<And>i. i < NBUF \<Longrightarrow> bkey (bufs (boot_log d l) i) = (0, 0)"
proof -
  let ?r = "bcache_st.extend (boot_raw d) \<lparr>logs = (\<lambda>_. l)\<rparr>"
  have e: "bufs ?r = (\<lambda>_. boot_buf)" "disk ?r = d" "dtrace ?r = []" "cur ?r = Some 0" "procs ?r = (\<lambda>_. boot_proc)"
    using boot_raw_simps [of d] by (simp_all add: bcache_st.defs)
  show "cache_ok (boot_log d l)" and a: "bc_abs (boot_log d l) = empty_cache d []"
    unfolding boot_log_def using binit_spec [of ?r] by (simp_all add: e boot_buf_simps)
  show "running (boot_log d l) 0" by (simp add: boot_log_def running_def binit_procs e boot_proc_def)
  show "the_log i (boot_log d l) = l"
    unfolding boot_log_def the_log_def binit_def by (subst fold_keeps_field; simp add: bcache_st.defs upd_buf_def)
  show "disk (boot_log d l) = d" using arg_cong [OF a, of ac_disk] by (simp add: empty_cache_def)
  have "dll (lru (?r\<lparr>lru := lst_init (lru ?r) Head\<rparr>)) Head (map B [])" by (simp add: dll_init)
  from binit_fold [OF order_refl this] show "bkey (bufs (boot_log d l) i) = (0, 0)" if "i < NBUF" for i
    using that e by (simp add: boot_log_def binit_def boot_buf_simps bkey_def boot_buf_def)
qed

lemma one_trans_spec:
  "cache_ok one_trans" "running one_trans 0" "the_log i one_trans = one_log" "disk one_trans = (\<lambda>_ _. 0)"
  "bc_abs one_trans = (empty_cache (\<lambda>_ _. 0) [])\<lparr>ac_data := (\<lambda>_ _. 0)((0, 50) := (\<lambda>_. 7)), ac_refs := (\<lambda>_. 0)((0, 50) := 1)\<rparr>"
proof -
  let ?s = "boot_log (\<lambda>_ _. 0) one_log"
  note s = boot_log_spec [where d = "\<lambda>_ _. 0" and l = one_log]
  have b: "bkey dirty_buf = (0, 50)" "live dirty_buf" "b_valid dirty_buf" "b_refcnt dirty_buf = 1" "b_data dirty_buf = (\<lambda>_. 7)"
    "\<not> sl_locked (b_lock dirty_buf)"
    by (simp_all add: dirty_buf_def boot_buf_def bkey_def live_def)
  have "key_ok (0, 50)" by (simp add: key_ok_def NDISK_def)
  then show ok: "cache_ok one_trans"
    unfolding one_trans_def using b s(6) by (intro cache_ok_replace [OF s(1)]) (auto simp: buf_ok_def)
  show "running one_trans 0" "the_log i one_trans = one_log" "disk one_trans = (\<lambda>_ _. 0)"
    using s(3,4,5) by (auto simp: one_trans_def running_def the_log_def upd_buf_def)
  have n: "lookup ?s k = None" for k
  proof (rule ccontr)
    assume "lookup ?s k \<noteq> None"
    then obtain c where "lookup ?s k = Some c" by auto
    then obtain j where j: "j < NBUF" "bufs ?s j = c" "live c" "bkey c = k" using lookup_iff [OF s(1)] by blast
    then have "key_ok (bkey c)" using cache_ok_buf [OF s(1) j(1)] by (simp add: buf_ok_def)
    with s(6) [OF j(1)] j show False by (simp add: key_ok_def)
  qed
  have "lookup one_trans k = (if k = (0, 50) then Some dirty_buf else None)" for k
    using lookup_replace [OF s(1) ok, of 0 dirty_buf k] b n by (simp add: one_trans_def NBUF_def)
  then show "bc_abs one_trans = (empty_cache (\<lambda>_ _. 0) [])\<lparr>ac_data := (\<lambda>_ _. 0)((0, 50) := (\<lambda>_. 7)), ac_refs := (\<lambda>_. 0)((0, 50) := 1)\<rparr>"
    using b s(2,5) arg_cong [OF s(2), of ac_trace]
    by (intro acache.equality) (auto simp: bc_abs_def empty_cache_def one_trans_def fun_eq_iff)
qed

lemma one_trans_ready: "commit_ready 0 1 one_trans"
proof -
  have "lkey 0 2 j \<noteq> (0, 50)" if "j < LOGSIZE" for j
    using log_word [of 2 j] that by (auto simp: lkey_def word_unat_eq_iff LOGSIZE_def)
  then have "(0, 50) \<notin> log_area 0 2" unfolding log_area_def by (force simp: lkey_def)
  then show ?thesis
    unfolding commit_ready_def one_trans_spec
    by (auto simp: Let_def one_trans_spec(1) one_log_def idle_def empty_cache_def trans_ok_def key_ok_def LOGSIZE_def NDISK_def NBUF_def
      get32_def get16_def get8_def inj_on_def)
qed

theorem commit_crash_atomic_witness:
  "\<exists>s' W. commit 0 one_trans = Done () s' \<and> disk s' (0, 50) = (\<lambda>_. 7) \<and>
     (\<exists>r'. initlog 0 \<lparr>sb_magic = 0, sb_size = 0, sb_nblocks = 0, sb_ninodes = 0, sb_nlog = 30, sb_logstart = 2, sb_inodestart = 0, sb_bmapstart = 0\<rparr>
         (boot_log (writes (take 0 W) (disk one_trans)) one_log) = Done () r')"
proof -
  let ?sb = "\<lparr>sb_magic = 0, sb_size = 0, sb_nblocks = 0, sb_ninodes = 0, sb_nlog = 30, sb_logstart = 2, sb_inodestart = 0, sb_bmapstart = 0\<rparr>"
  have k: "(0, 50) \<notin> log_area 0 2"
    using one_trans_ready unfolding commit_ready_def Let_def one_trans_spec(3) trans_ok_def by (simp add: one_log_def)
  have l: "lg_start (the_log 0 one_trans) = 2" by (simp add: one_trans_spec one_log_def)
  from commit_crash_atomic [OF one_trans_spec(2) one_trans_ready, unfolded l] obtain s' W where
    c: "commit 0 one_trans = Done () s'" "\<forall>k. k \<notin> log_area 0 2 \<longrightarrow> disk s' k = ac_data (bc_abs one_trans) k"
    and r: "\<And>m q sb. \<forall>r :: log_st. m \<le> length W \<and> fresh r q (writes (take m W) (disk one_trans)) \<and> sb_logstart sb = 2 \<longrightarrow>
          (\<exists>r'. initlog 0 sb r = Done () r')" by blast
  have "disk s' (0, 50) = (\<lambda>_. 7)" using c(2) k by (simp add: one_trans_spec)
  moreover have "fresh (boot_log (writes (take 0 W) (disk one_trans)) one_log) 0 (writes (take 0 W) (disk one_trans))"
    using boot_log_spec(1-3) by (auto simp: fresh_def)
  ultimately show ?thesis using c(1) r [of 0 0 ?sb] by force
qed

section \<open>Reference counts after recovery\<close>

text \<open>
  C34: recovery unpins buffers that nobody pinned. After \<open>initlog\<close> has installed a transaction
  found in the log, the buffer of each of its home blocks has reference count -1 (all 32 bits set), and
  the next process that reads the block gets a locked buffer whose reference count is 0, so that
  \<open>bget\<close> takes it for unused and may give it to another block while it is in use.
\<close>

theorem recovery_leaves_negative_refcnt:
  fixes r :: "'z log_st_scheme"
  assumes "fresh r q dk" and "sb_logstart sb = st" and "sint (get32 (dk (d, st)) 0) = int n"
    and "trans_ok d st n (\<lambda>j. get32 (dk (d, st)) (4 + 4 * j))" and "j < n"
  shows "\<exists>r' i r''. initlog d sb r = Done () r' \<and> bread d (get32 (dk (d, st)) (4 + 4 * j)) r' = Done i r''
     \<and> b_refcnt (bufs r' i) = - 1 \<and> sl_locked (b_lock (bufs r'' i)) \<and> b_refcnt (bufs r'' i) = 0"
proof -
  let ?bl = "\<lambda>j. get32 (dk (d, st)) (4 + 4 * j)" and ?k = "(d, get32 (dk (d, st)) (4 + 4 * j))"
  obtain r' where r': "initlog d sb r = Done () r'" "cache_ok r'" "running r' q" "ac_lock (bc_abs r') = (\<lambda>_. None)"
      "ac_refs (bc_abs r') = unpinned d ?bl n (\<lambda>_. 0)"
    using initlog_spec [OF assms(1-4)] by blast
  have ref: "ac_refs (bc_abs r') ?k = - 1" using assms(5) by (auto simp: r'(5) unpinned_def)
  then obtain b where "lookup r' ?k = Some b" by (auto simp: bc_abs_def split: option.splits)
  then obtain i where i: "i < NBUF" "bkey (bufs r' i) = ?k" by (auto simp: lookup_iff [OF r'(2)])
  have k: "key_ok ?k" using trans_okD(4) [OF assms(4,5)] .
  have "b_refcnt (bufs r' i) = - 1" using refs_index [OF r'(2) i(1)] k ref i(2) by simp
  moreover obtain c where "read_buf r' q ?k i c" "bread d (?bl j) r' = Done i (upd_buf i (\<lambda>_. c) r')"
    using bread_hit [OF r'(3,2) k _ i] r'(4) by auto
  ultimately show ?thesis using r'(1) by (fastforce simp: read_buf_def)
qed

text \<open>A disk with a committed transaction of one block in its log.\<close>

definition log_disk :: "bkey \<Rightarrow> block" where
  "log_disk = (\<lambda>_ _. 0)((0, 2) := enc_head (\<lambda>_. 0) (\<lambda>_. 50) 1)"

theorem recovery_leaves_negative_refcnt_witness:
  "\<exists>r' i r''. initlog 0 \<lparr>sb_magic = 0, sb_size = 0, sb_nblocks = 0, sb_ninodes = 0, sb_nlog = 30, sb_logstart = 2, sb_inodestart = 0, sb_bmapstart = 0\<rparr>
     (boot_log log_disk one_log) = Done () r' \<and> bread 0 50 r' = Done i r'' \<and> b_refcnt (bufs r'' i) = 0"
proof -
  have "commit_ready 0 1 one_trans" by (rule one_trans_ready)
  then have "trans_ok 0 2 1 (\<lambda>_. 50)" unfolding commit_ready_def Let_def one_trans_spec(3) by (simp add: one_log_def)
  moreover have h: "log_disk (0, 2) = enc_head (\<lambda>_. 0) (\<lambda>_. 50) 1" by (simp add: log_disk_def)
  moreover have "get32 (enc_head (\<lambda>_. 0) (\<lambda>_. 50) 1) (4 + 4 * j) = 50" if "j < 1" for j
    using enc_head_get(3) [of 1 j] that by (simp add: LOGSIZE_def)
  ultimately have tr: "trans_ok 0 2 1 (\<lambda>j. get32 (log_disk (0, 2)) (4 + 4 * j))" and b: "get32 (log_disk (0, 2)) (4 + 4 * 0) = 50"
    by (auto simp: trans_ok_def inj_on_def)
  have n: "sint (get32 (log_disk (0, 2)) 0) = int 1" unfolding h using enc_head_get(2) [of 1] by (simp add: LOGSIZE_def)
  have f: "fresh (boot_log log_disk one_log) 0 log_disk" using boot_log_spec(1-3) by (auto simp: fresh_def)
  have "sb_logstart \<lparr>sb_magic = 0, sb_size = 0, sb_nblocks = 0, sb_ninodes = 0, sb_nlog = 30, sb_logstart = 2, sb_inodestart = 0, sb_bmapstart = 0\<rparr> = 2"
    by simp
  from recovery_leaves_negative_refcnt [OF f this n tr, of 0, unfolded b] show ?thesis by auto
qed

section \<open>Adding a block to the transaction\<close>

definition log_blocks :: "log \<Rightarrow> u32 list" where
  "log_blocks l = map (lh_block l) [0..<nat (lh_n l)]"

lemma log_index_spec:
  "log_index f b i k \<le> i + k \<and> (\<forall>j. i \<le> j \<longrightarrow> j < log_index f b i k \<longrightarrow> f j \<noteq> b)
     \<and> i \<le> log_index f b i k \<and> (log_index f b i k < i + k \<longrightarrow> f (log_index f b i k) = b)"
proof (induction k arbitrary: i)
  case (Suc k)
  from Suc [of "Suc i"] show ?case by auto (metis Suc_leI le_neq_implies_less)+
qed simp

text \<open>
  C33: \<open>log_write\<close> records the block once. In a transaction with room left, it returns, the logged
  blocks are then the old ones and the block of the buffer, still without repetition and within the array;
  a block that is new to the transaction has its buffer pinned, and for one that was in it already the
  buffers are untouched.
\<close>

theorem log_write_absorbs:
  fixes s :: "'z log_st_scheme"
  assumes "d = b_dev (bufs s b)" and "unat d < NDISK" and "0 \<le> lh_n (the_log d s)" and "lh_n (the_log d s) < int LOGSIZE"
    and "lh_n (the_log d s) < lg_size (the_log d s) - 1" and "1 \<le> lg_outstanding (the_log d s)"
    and "distinct (log_blocks (the_log d s))"
  shows "\<exists>s'. log_write b s = Done () s' \<and> distinct (log_blocks (the_log d s'))
     \<and> set (log_blocks (the_log d s')) = insert (b_blockno (bufs s b)) (set (log_blocks (the_log d s)))
     \<and> lh_n (the_log d s') \<le> int LOGSIZE
     \<and> bufs s' = (if b_blockno (bufs s b) \<in> set (log_blocks (the_log d s)) then bufs s
          else (bufs s)(b := (bufs s b)\<lparr>b_refcnt := b_refcnt (bufs s b) + 1\<rparr>))"
proof -
  define l n bn where ln: "l = the_log d s" "n = nat (lh_n l)" "bn = b_blockno (bufs s b)"
  define i where i: "i = log_index (lh_block l) bn 0 n"
  have n: "lh_n l = int n" using assms(3) by (simp add: ln)
  have ix: "i \<le> n" "\<And>j. j < i \<Longrightarrow> lh_block l j \<noteq> bn" "i < n \<Longrightarrow> lh_block l i = bn"
    using log_index_spec [of "lh_block l" bn 0 n] by (auto simp: i)
  let ?s = "upd_log d (\<lambda>l. l\<lparr>lh_block := (lh_block l)(i := bn)\<rparr>) s"
  have w: "log_write b s = (if i = n then Done () (upd_log d (\<lambda>l. l\<lparr>lh_n := lh_n l + 1\<rparr>) (bpin b ?s)) else Done () ?s)"
    unfolding log_write_def Let_def assms(1) [symmetric] ln(1) [symmetric] ln(2) [symmetric] ln(3) [symmetric] i [symmetric]
    using assms(2,4-6) [folded ln(1)] n by simp
  show ?thesis
  proof (cases "i = n")
    case True
    have "bn \<notin> set (log_blocks l)" using ix(2) True unfolding log_blocks_def ln(2) [symmetric] by fastforce
    moreover have "the_log d (upd_log d (\<lambda>l. l\<lparr>lh_n := lh_n l + 1\<rparr>) (bpin b ?s)) = l\<lparr>lh_block := (lh_block l)(n := bn), lh_n := int n + 1\<rparr>"
      using True n by (simp add: bpin_def upd_buf_def the_log_def upd_log_def ln(1))
    moreover have "log_blocks (l\<lparr>lh_block := (lh_block l)(n := bn), lh_n := int n + 1\<rparr>) = log_blocks l @ [bn]"
      by (simp add: log_blocks_def n nat_add_distrib)
    ultimately show ?thesis
      using w True assms(4,7) n unfolding ln(1,3) [symmetric] by (auto simp: bpin_def)
  next
    case False
    then have "lh_block l i = bn" "i < n" using ix by auto
    then have "bn \<in> set (log_blocks l)" and "(lh_block l)(i := bn) = lh_block l" using n by (auto simp: log_blocks_def)
    then show ?thesis
      using w False assms(4,7) unfolding ln(1,3) [symmetric] by (auto simp: insert_absorb ln(1))
  qed
qed

text \<open>
  C35: the reservation of \<open>begin_op\<close> and the check of \<open>log_write\<close> do not agree. With a log of the
  size \<open>mkfs\<close> makes (\<open>LOGSIZE\<close> blocks, one of them the header), \<open>begin_op\<close> lets three operations
  in at once, each entitled to \<open>MAXOPBLOCKS\<close> blocks; but once they have logged 29 blocks in all, any
  further \<open>log_write\<close> by one of them panics, even of a block that is already in the log.
\<close>

theorem log_reservation_off_by_one:
  fixes s :: "'z log_st_scheme"
  assumes "lg_size (the_log d s) = int LOGSIZE" and "\<not> lg_committing (the_log d s)" and "lh_n (the_log d s) = 0"
    and "lg_outstanding (the_log d s) = 0" and "unat d < NDISK"
  shows "\<exists>s3. bnd (begin_op d s) (\<lambda>_ s. bnd (begin_op d s) (\<lambda>_ s. begin_op d s)) = Done () s3
     \<and> lg_outstanding (the_log d s3) = 3
     \<and> (\<forall>(s4 :: 'z log_st_scheme) f b. the_log d s4 = (the_log d s3)\<lparr>lh_n := 3 * int MAXOPBLOCKS - 1, lh_block := f\<rparr> \<and> b_dev (bufs s4 b) = d
          \<longrightarrow> log_write b s4 = Panic ''too big a transaction'')"
  using assms by (auto simp: begin_op_def Let_def log_write_def LOGSIZE_def MAXOPBLOCKS_def)

theorem log_write_absorbs_witness:
  "\<exists>s'. log_write 0 (upd_log 0 (\<lambda>l. l\<lparr>lg_outstanding := 1\<rparr>) one_trans) = Done () s'
     \<and> set (log_blocks (the_log 0 s')) = {50} \<and> bufs s' = bufs one_trans"
proof -
  have b: "bufs one_trans 0 = dirty_buf" by (simp add: one_trans_def)
  then have d: "b_dev (bufs one_trans 0) = 0" "b_blockno (bufs one_trans 0) = 50" by (simp_all add: dirty_buf_def boot_buf_def)
  show ?thesis
    using log_write_absorbs [of 0 "upd_log 0 (\<lambda>l. l\<lparr>lg_outstanding := 1\<rparr>) one_trans" 0] d
    by (auto simp: one_trans_spec(3) one_log_def NDISK_def LOGSIZE_def log_blocks_def)
qed

theorem log_reservation_off_by_one_witness:
  "\<exists>s3. bnd (begin_op 0 (boot_log (\<lambda>_ _. 0) (one_log\<lparr>lh_n := 0, lg_committing := False\<rparr>)))
     (\<lambda>_ s. bnd (begin_op 0 s) (\<lambda>_ s. begin_op 0 s)) = Done () s3 \<and> lg_outstanding (the_log 0 s3) = 3"
  using log_reservation_off_by_one [of 0 "boot_log (\<lambda>_ _. 0) (one_log\<lparr>lh_n := 0, lg_committing := False\<rparr>)"]
  by (auto simp: boot_log_spec(4) one_log_def LOGSIZE_def NDISK_def)

end
