(* ===== verification/Xv6_Fs.thy ===== *)
theory Xv6_Fs
  imports Xv6_Log
begin

text \<open>
  \<open>kernel/fs.c\<close>: block allocator, inodes, file contents, directories and path names. In-memory
  inodes are indices into the inode cache; names and paths are byte lists without the final NUL.
\<close>

section \<open>State\<close>

definition NINODE :: nat where "NINODE = 50"
definition ROOTDEV :: u32 where "ROOTDEV = 0"
definition ROOTINO :: u32 where "ROOTINO = 1"
definition FSMAGIC :: u32 where "FSMAGIC = 0x10203040"
definition NDIRECT :: nat where "NDIRECT = 12"
definition NINDIRECT :: nat where "NINDIRECT = BSIZE div 4"
definition MAXFILE :: nat where "MAXFILE = NDIRECT + NINDIRECT"
definition DIRSIZ :: nat where "DIRSIZ = 14"
definition T_DIR :: u16 where "T_DIR = 1"
definition T_FILE :: u16 where "T_FILE = 2"
definition T_DEVICE :: u16 where "T_DEVICE = 3"

text \<open>\<open>struct inode\<close> of \<open>kernel/file.h\<close>.\<close>

record inode =
  i_dev :: u32
  i_inum :: u32
  i_ref :: int
  i_lock :: sleeplock
  i_valid :: bool
  i_type :: u16
  i_major :: u16
  i_minor :: u16
  i_nlink :: u16
  i_size :: u32
  i_addrs :: "nat \<Rightarrow> u32"

record fs_st = log_st +
  sb :: superblock
  inodes :: "nat \<Rightarrow> inode"

definition upd_inode :: "nat \<Rightarrow> (inode \<Rightarrow> inode) \<Rightarrow> 'z fs_st_scheme \<Rightarrow> 'z fs_st_scheme" where
  "upd_inode i f s = s\<lparr>inodes := (inodes s)(i := f (inodes s i))\<rparr>"

section \<open>Layout on disk\<close>

text \<open>Inodes per block, bitmap bits per block, and the blocks that hold an inode or a bit.\<close>

definition IPB :: nat where "IPB = BSIZE div 64"
definition BPB :: nat where "BPB = BSIZE * 8"

definition IBLOCK :: "u32 \<Rightarrow> superblock \<Rightarrow> u32" where
  "IBLOCK i x = i div of_nat IPB + sb_inodestart x"

definition BBLOCK :: "u32 \<Rightarrow> superblock \<Rightarrow> u32" where
  "BBLOCK b x = b div of_nat BPB + sb_bmapstart x"

text \<open>The superblock in its block.\<close>

definition dec_sb :: "block \<Rightarrow> superblock" where
  "dec_sb b = \<lparr>sb_magic = get32 b 0, sb_size = get32 b 4, sb_nblocks = get32 b 8, sb_ninodes = get32 b 12,
     sb_nlog = get32 b 16, sb_logstart = get32 b 20, sb_inodestart = get32 b 24, sb_bmapstart = get32 b 28\<rparr>"

text \<open>\<open>struct dinode\<close>: 64 bytes, with the addresses from byte 12 on.\<close>

record dinode =
  d_type :: u16
  d_major :: u16
  d_minor :: u16
  d_nlink :: u16
  d_size :: u32
  d_addrs :: "nat \<Rightarrow> u32"

fun put_addrs :: "block \<Rightarrow> nat \<Rightarrow> (nat \<Rightarrow> u32) \<Rightarrow> nat \<Rightarrow> block" where
  "put_addrs b k f 0 = b"
| "put_addrs b k f (Suc j) = put32 (put_addrs b k f j) (k + 4 * j) (f j)"

definition get_dinode :: "block \<Rightarrow> nat \<Rightarrow> dinode" where
  "get_dinode b i = (let k = 64 * i in \<lparr>d_type = get16 b k, d_major = get16 b (k + 2), d_minor = get16 b (k + 4),
     d_nlink = get16 b (k + 6), d_size = get32 b (k + 8), d_addrs = (\<lambda>j. get32 b (k + 12 + 4 * j))\<rparr>)"

definition put_dinode :: "block \<Rightarrow> nat \<Rightarrow> dinode \<Rightarrow> block" where
  "put_dinode b i d = (let k = 64 * i;
     b = put16 b k (d_type d); b = put16 b (k + 2) (d_major d); b = put16 b (k + 4) (d_minor d);
     b = put16 b (k + 6) (d_nlink d); b = put32 b (k + 8) (d_size d)
     in put_addrs b (k + 12) (d_addrs d) (NDIRECT + 1))"

section \<open>Super block and block allocator\<close>

definition readsb :: "u32 \<Rightarrow> 'z fs_st_scheme \<Rightarrow> (superblock, 'z fs_st_scheme) outcome" where
  "readsb dev s = bnd (bread dev 1 s) (\<lambda>bp s.
     let x = dec_sb (b_data (bufs s bp)) in bnd (brelse bp s) (\<lambda>_ s. Done x s))"

definition fsinit :: "u32 \<Rightarrow> 'z fs_st_scheme \<Rightarrow> (unit, 'z fs_st_scheme) outcome" where
  "fsinit dev s = bnd (readsb dev s) (\<lambda>x s.
     let s = s\<lparr>sb := x\<rparr>
     in if sb_magic x \<noteq> FSMAGIC then Panic ''invalid file system'' else initlog dev x s)"

definition bzero :: "u32 \<Rightarrow> u32 \<Rightarrow> 'z fs_st_scheme \<Rightarrow> (unit, 'z fs_st_scheme) outcome" where
  "bzero dev bno s = bnd (bread dev bno s) (\<lambda>bp s.
     bnd (log_write bp (set_data bp (\<lambda>_. 0) s)) (\<lambda>_ s. brelse bp s))"

text \<open>Bit \<open>bi\<close> of a bitmap block.\<close>

definition bit_mask :: "nat \<Rightarrow> u8" where
  "bit_mask bi = push_bit (bi mod 8) 1"

definition bit_used :: "block \<Rightarrow> nat \<Rightarrow> bool" where
  "bit_used b bi \<longleftrightarrow> get8 b (bi div 8) AND bit_mask bi \<noteq> 0"

definition bit_set :: "block \<Rightarrow> nat \<Rightarrow> block" where
  "bit_set b bi = put8 b (bi div 8) (get8 b (bi div 8) OR bit_mask bi)"

definition bit_clear :: "block \<Rightarrow> nat \<Rightarrow> block" where
  "bit_clear b bi = put8 b (bi div 8) (get8 b (bi div 8) AND NOT (bit_mask bi))"

text \<open>
  The outer loop of \<open>balloc\<close> over the first bits \<open>b\<close> of the bitmap blocks; the inner loop is
  the search for the first bit that is clear and below \<open>sb.size\<close>.
\<close>

fun balloc_from :: "u32 \<Rightarrow> nat list \<Rightarrow> 'z fs_st_scheme \<Rightarrow> (u32, 'z fs_st_scheme) outcome" where
  "balloc_from dev [] s = Panic ''balloc: out of blocks''"
| "balloc_from dev (b # bs) s =
     bnd (bread dev (BBLOCK (of_nat b) (sb s)) s) (\<lambda>bp s.
     case List.find (\<lambda>bi. \<not> bit_used (b_data (bufs s bp)) bi) [0..<min BPB (unat (sb_size (sb s)) - b)] of
       Some bi \<Rightarrow>
         bnd (log_write bp (set_data bp (bit_set (b_data (bufs s bp)) bi) s)) (\<lambda>_ s.
         bnd (brelse bp s) (\<lambda>_ s.
         bnd (bzero dev (of_nat (b + bi)) s) (\<lambda>_ s.
         Done (of_nat (b + bi)) s)))
     | None \<Rightarrow> bnd (brelse bp s) (\<lambda>_ s. balloc_from dev bs s))"

definition balloc :: "u32 \<Rightarrow> 'z fs_st_scheme \<Rightarrow> (u32, 'z fs_st_scheme) outcome" where
  "balloc dev s = balloc_from dev (map (\<lambda>i. i * BPB) [0..<(unat (sb_size (sb s)) + BPB - 1) div BPB]) s"

definition bfree :: "u32 \<Rightarrow> u32 \<Rightarrow> 'z fs_st_scheme \<Rightarrow> (unit, 'z fs_st_scheme) outcome" where
  "bfree dev b s =
     bnd (bread dev (BBLOCK b (sb s)) s) (\<lambda>bp s.
     let bi = unat b mod BPB
     in if \<not> bit_used (b_data (bufs s bp)) bi then Panic ''freeing free block''
        else bnd (log_write bp (set_data bp (bit_clear (b_data (bufs s bp)) bi) s)) (\<lambda>_ s. brelse bp s))"

section \<open>Inodes\<close>

definition iinit :: "'z fs_st_scheme \<Rightarrow> 'z fs_st_scheme" where
  "iinit s = fold (\<lambda>i. upd_inode i (\<lambda>ip. ip\<lparr>i_lock := initsleeplock ''inode''\<rparr>)) [0..<NINODE] s"

text \<open>\<open>iget\<close>: the entry that holds the inode, else the first empty one.\<close>

definition iget :: "u32 \<Rightarrow> u32 \<Rightarrow> 'z fs_st_scheme \<Rightarrow> (nat, 'z fs_st_scheme) outcome" where
  "iget dev inum s =
     (case List.find (\<lambda>i. i_ref (inodes s i) > 0 \<and> i_dev (inodes s i) = dev \<and> i_inum (inodes s i) = inum) [0..<NINODE] of
        Some i \<Rightarrow> Done i (upd_inode i (\<lambda>ip. ip\<lparr>i_ref := i_ref ip + 1\<rparr>) s)
      | None \<Rightarrow>
        (case List.find (\<lambda>i. i_ref (inodes s i) = 0) [0..<NINODE] of
           Some i \<Rightarrow> Done i (upd_inode i (\<lambda>ip. ip\<lparr>i_dev := dev, i_inum := inum, i_ref := 1, i_valid := False\<rparr>) s)
         | None \<Rightarrow> Panic ''iget: no inodes''))"

definition zero_dinode :: dinode where
  "zero_dinode = \<lparr>d_type = 0, d_major = 0, d_minor = 0, d_nlink = 0, d_size = 0, d_addrs = (\<lambda>_. 0)\<rparr>"

fun ialloc_from :: "u32 \<Rightarrow> u16 \<Rightarrow> nat list \<Rightarrow> 'z fs_st_scheme \<Rightarrow> (nat, 'z fs_st_scheme) outcome" where
  "ialloc_from dev type [] s = Panic ''ialloc: no inodes''"
| "ialloc_from dev type (inum # is) s =
     bnd (bread dev (IBLOCK (of_nat inum) (sb s)) s) (\<lambda>bp s.
     if d_type (get_dinode (b_data (bufs s bp)) (inum mod IPB)) = 0
     then bnd (log_write bp (set_data bp (put_dinode (b_data (bufs s bp)) (inum mod IPB) (zero_dinode\<lparr>d_type := type\<rparr>)) s)) (\<lambda>_ s.
          bnd (brelse bp s) (\<lambda>_ s.
          iget dev (of_nat inum) s))
     else bnd (brelse bp s) (\<lambda>_ s. ialloc_from dev type is s))"

definition ialloc :: "u32 \<Rightarrow> u16 \<Rightarrow> 'z fs_st_scheme \<Rightarrow> (nat, 'z fs_st_scheme) outcome" where
  "ialloc dev type s = ialloc_from dev type [1..<unat (sb_ninodes (sb s))] s"

definition to_dinode :: "inode \<Rightarrow> dinode" where
  "to_dinode ip = \<lparr>d_type = i_type ip, d_major = i_major ip, d_minor = i_minor ip, d_nlink = i_nlink ip,
     d_size = i_size ip, d_addrs = i_addrs ip\<rparr>"

definition iupdate :: "nat \<Rightarrow> 'z fs_st_scheme \<Rightarrow> (unit, 'z fs_st_scheme) outcome" where
  "iupdate ip s =
     bnd (bread (i_dev (inodes s ip)) (IBLOCK (i_inum (inodes s ip)) (sb s)) s) (\<lambda>bp s.
     bnd (log_write bp (set_data bp (put_dinode (b_data (bufs s bp)) (unat (i_inum (inodes s ip)) mod IPB)
            (to_dinode (inodes s ip))) s)) (\<lambda>_ s.
     brelse bp s))"

definition idup :: "nat \<Rightarrow> 'z fs_st_scheme \<Rightarrow> 'z fs_st_scheme" where
  "idup ip s = upd_inode ip (\<lambda>ip. ip\<lparr>i_ref := i_ref ip + 1\<rparr>) s"

abbreviation lock_of :: "nat \<Rightarrow> 'z fs_st_scheme \<Rightarrow> sleeplock" where
  "lock_of ip s \<equiv> i_lock (inodes s ip)"

abbreviation set_lock :: "nat \<Rightarrow> sleeplock \<Rightarrow> 'z fs_st_scheme \<Rightarrow> 'z fs_st_scheme" where
  "set_lock ip l \<equiv> upd_inode ip (\<lambda>x. x\<lparr>i_lock := l\<rparr>)"

definition ilock :: "nat \<Rightarrow> 'z fs_st_scheme \<Rightarrow> (unit, 'z fs_st_scheme) outcome" where
  "ilock ip s =
     (if i_ref (inodes s ip) < 1 then Panic ''ilock''
      else bnd (acquiresleep (ChanInodeLock ip) (lock_of ip) (set_lock ip) s) (\<lambda>_ s.
        if \<not> i_valid (inodes s ip)
        then bnd (bread (i_dev (inodes s ip)) (IBLOCK (i_inum (inodes s ip)) (sb s)) s) (\<lambda>bp s.
             let d = get_dinode (b_data (bufs s bp)) (unat (i_inum (inodes s ip)) mod IPB);
                 s = upd_inode ip (\<lambda>x. x\<lparr>i_type := d_type d, i_major := d_major d, i_minor := d_minor d, i_nlink := d_nlink d,
                       i_size := d_size d, i_addrs := d_addrs d\<rparr>) s
             in bnd (brelse bp s) (\<lambda>_ s.
                let s = upd_inode ip (\<lambda>x. x\<lparr>i_valid := True\<rparr>) s
                in if i_type (inodes s ip) = 0 then Panic ''ilock: no type'' else Done () s))
        else Done () s))"

definition iunlock :: "nat \<Rightarrow> 'z fs_st_scheme \<Rightarrow> (unit, 'z fs_st_scheme) outcome" where
  "iunlock ip s =
     bnd (holdingsleep (lock_of ip) s) (\<lambda>held s.
     if \<not> held \<or> i_ref (inodes s ip) < 1 then Panic ''iunlock''
     else Done () (releasesleep (ChanInodeLock ip) (lock_of ip) (set_lock ip) s))"

text \<open>The two loops of \<open>itrunc\<close>: over the direct blocks, and over the indirect block's entries.\<close>

definition itrunc_direct :: "nat \<Rightarrow> nat \<Rightarrow> 'z fs_st_scheme \<Rightarrow> (unit, 'z fs_st_scheme) outcome" where
  "itrunc_direct ip i s =
     (if i_addrs (inodes s ip) i \<noteq> 0
      then bnd (bfree (i_dev (inodes s ip)) (i_addrs (inodes s ip) i) s) (\<lambda>_ s.
           Done () (upd_inode ip (\<lambda>x. x\<lparr>i_addrs := (i_addrs x)(i := 0)\<rparr>) s))
      else Done () s)"

definition itrunc_indirect :: "nat \<Rightarrow> nat \<Rightarrow> nat \<Rightarrow> 'z fs_st_scheme \<Rightarrow> (unit, 'z fs_st_scheme) outcome" where
  "itrunc_indirect ip bp j s =
     (let a = get32 (b_data (bufs s bp)) (4 * j)
      in if a \<noteq> 0 then bfree (i_dev (inodes s ip)) a s else Done () s)"

definition itrunc :: "nat \<Rightarrow> 'z fs_st_scheme \<Rightarrow> (unit, 'z fs_st_scheme) outcome" where
  "itrunc ip s =
     bnd (each (itrunc_direct ip) [0..<NDIRECT] s) (\<lambda>_ s.
     bnd (if i_addrs (inodes s ip) NDIRECT \<noteq> 0
          then bnd (bread (i_dev (inodes s ip)) (i_addrs (inodes s ip) NDIRECT) s) (\<lambda>bp s.
               bnd (each (itrunc_indirect ip bp) [0..<NINDIRECT] s) (\<lambda>_ s.
               bnd (brelse bp s) (\<lambda>_ s.
               bnd (bfree (i_dev (inodes s ip)) (i_addrs (inodes s ip) NDIRECT) s) (\<lambda>_ s.
               Done () (upd_inode ip (\<lambda>x. x\<lparr>i_addrs := (i_addrs x)(NDIRECT := 0)\<rparr>) s)))))
          else Done () s) (\<lambda>_ s.
     iupdate ip (upd_inode ip (\<lambda>x. x\<lparr>i_size := 0\<rparr>) s)))"

definition iput :: "nat \<Rightarrow> 'z fs_st_scheme \<Rightarrow> (unit, 'z fs_st_scheme) outcome" where
  "iput ip s =
     bnd (if i_ref (inodes s ip) = 1 \<and> i_valid (inodes s ip) \<and> i_nlink (inodes s ip) = 0
          then bnd (acquiresleep (ChanInodeLock ip) (lock_of ip) (set_lock ip) s) (\<lambda>_ s.
               bnd (itrunc ip s) (\<lambda>_ s.
               bnd (iupdate ip (upd_inode ip (\<lambda>x. x\<lparr>i_type := 0\<rparr>) s)) (\<lambda>_ s.
               Done () (releasesleep (ChanInodeLock ip) (lock_of ip) (set_lock ip)
                 (upd_inode ip (\<lambda>x. x\<lparr>i_valid := False\<rparr>) s)))))
          else Done () s) (\<lambda>_ s.
     Done () (upd_inode ip (\<lambda>x. x\<lparr>i_ref := i_ref x - 1\<rparr>) s))"

definition iunlockput :: "nat \<Rightarrow> 'z fs_st_scheme \<Rightarrow> (unit, 'z fs_st_scheme) outcome" where
  "iunlockput ip s = bnd (iunlock ip s) (\<lambda>_ s. iput ip s)"

section \<open>File contents\<close>

text \<open>The two steps of \<open>bmap\<close> that allocate: in the inode and in the indirect block.\<close>

definition bmap_slot :: "nat \<Rightarrow> nat \<Rightarrow> 'z fs_st_scheme \<Rightarrow> (u32, 'z fs_st_scheme) outcome" where
  "bmap_slot ip i s =
     (if i_addrs (inodes s ip) i = 0
      then bnd (balloc (i_dev (inodes s ip)) s) (\<lambda>a s.
           Done a (upd_inode ip (\<lambda>x. x\<lparr>i_addrs := (i_addrs x)(i := a)\<rparr>) s))
      else Done (i_addrs (inodes s ip) i) s)"

definition bmap :: "nat \<Rightarrow> nat \<Rightarrow> 'z fs_st_scheme \<Rightarrow> (u32, 'z fs_st_scheme) outcome" where
  "bmap ip bn s =
     (if bn < NDIRECT then bmap_slot ip bn s
      else let bn = bn - NDIRECT
      in if bn < NINDIRECT
         then bnd (bmap_slot ip NDIRECT s) (\<lambda>addr s.
              bnd (bread (i_dev (inodes s ip)) addr s) (\<lambda>bp s.
              let a = get32 (b_data (bufs s bp)) (4 * bn)
              in if a = 0
                 then bnd (balloc (i_dev (inodes s ip)) s) (\<lambda>a s.
                      bnd (log_write bp (set_data bp (put32 (b_data (bufs s bp)) (4 * bn) a) s)) (\<lambda>_ s.
                      bnd (brelse bp s) (\<lambda>_ s. Done a s)))
                 else bnd (brelse bp s) (\<lambda>_ s. Done a s)))
         else Panic ''bmap: out of range'')"

text \<open>\<open>struct stat\<close> of \<open>kernel/stat.h\<close>.\<close>

record stat =
  st_dev :: u32
  st_ino :: u32
  st_type :: u16
  st_nlink :: u16
  st_size :: u64

definition stati :: "inode \<Rightarrow> stat" where
  "stati ip = \<lparr>st_dev = i_dev ip, st_ino = i_inum ip, st_type = i_type ip, st_nlink = i_nlink ip, st_size = ucast (i_size ip)\<rparr>"

text \<open>Where the next chunk of a copy goes to or comes from.\<close>

fun dst_add :: "dst \<Rightarrow> nat \<Rightarrow> dst" where
  "dst_add (UserDst a) m = UserDst (a + of_nat m)"
| "dst_add KernDst m = KernDst"

fun src_add :: "src \<Rightarrow> nat \<Rightarrow> src" where
  "src_add (UserSrc a) m = UserSrc (a + of_nat m)"
| "src_add (KernSrc bs) m = KernSrc (drop m bs)"

lemma block_chunk_pos: "0 < r \<Longrightarrow> 0 < min r (BSIZE - off mod BSIZE)"
  by (simp add: BSIZE_def)

text \<open>
  The loop of \<open>readi\<close>, with \<open>r\<close> bytes still to read at offset \<open>off\<close>. It returns the bytes read
  for a kernel destination; a failed copy ends the loop.
\<close>

function readi_from :: "nat \<Rightarrow> dst \<Rightarrow> nat \<Rightarrow> nat \<Rightarrow> 'z fs_st_scheme \<Rightarrow> (u8 list, 'z fs_st_scheme) outcome" where
  "readi_from ip d off r s =
     (if r = 0 then Done [] s
      else bnd (bmap ip (off div BSIZE) s) (\<lambda>addr s.
           bnd (bread (i_dev (inodes s ip)) addr s) (\<lambda>bp s.
           let m = min r (BSIZE - off mod BSIZE); bs = slice (b_data (bufs s bp)) (off mod BSIZE) m
           in bnd (either_copyout d bs s) (\<lambda>e s.
              bnd (brelse bp s) (\<lambda>_ s.
              if e = -1 then Done [] s
              else bnd (readi_from ip (dst_add d m) (off + m) (r - m) s) (\<lambda>rest s. Done (bs @ rest) s))))))"
  by pat_completeness auto

termination
  by (relation "measure (\<lambda>(ip, d, off, r, s). r)")
    (use block_chunk_pos in \<open>auto simp del: min_less_iff_conj intro!: diff_less\<close>)

declare readi_from.simps [simp del]

definition readi :: "nat \<Rightarrow> dst \<Rightarrow> u32 \<Rightarrow> u32 \<Rightarrow> 'z fs_st_scheme \<Rightarrow> (int \<times> u8 list, 'z fs_st_scheme) outcome" where
  "readi ip d off n s =
     (let sz = i_size (inodes s ip)
      in if off > sz \<or> off + n < off then Done (-1, []) s
         else let n = (if off + n > sz then sz - off else n)
              in bnd (readi_from ip d (unat off) (unat n) s) (\<lambda>bs s. Done (sint n, bs) s))"

text \<open>
  The loop of \<open>writei\<close>; it returns the offset it reached. A failed \<open>either_copyin\<close> has perhaps
  copied some bytes into the buffer already.
\<close>

function writei_from :: "nat \<Rightarrow> src \<Rightarrow> nat \<Rightarrow> nat \<Rightarrow> 'z fs_st_scheme \<Rightarrow> (nat, 'z fs_st_scheme) outcome" where
  "writei_from ip x off r s =
     (if r = 0 then Done off s
      else bnd (bmap ip (off div BSIZE) s) (\<lambda>addr s.
           bnd (bread (i_dev (inodes s ip)) addr s) (\<lambda>bp s.
           let m = min r (BSIZE - off mod BSIZE)
           in bnd (either_copyin x m s) (\<lambda>(e, bs) s.
              let s = set_data bp (splice (b_data (bufs s bp)) (off mod BSIZE) bs) s
              in if e = -1 then bnd (brelse bp s) (\<lambda>_ s. Done off s)
                 else bnd (log_write bp s) (\<lambda>_ s.
                      bnd (brelse bp s) (\<lambda>_ s.
                      writei_from ip (src_add x m) (off + m) (r - m) s))))))"
  by pat_completeness auto

termination
  by (relation "measure (\<lambda>(ip, x, off, r, s). r)")
    (use block_chunk_pos in \<open>auto simp del: min_less_iff_conj intro!: diff_less\<close>)

declare writei_from.simps [simp del]

definition writei :: "nat \<Rightarrow> src \<Rightarrow> u32 \<Rightarrow> u32 \<Rightarrow> 'z fs_st_scheme \<Rightarrow> (int, 'z fs_st_scheme) outcome" where
  "writei ip x off n s =
     (if off > i_size (inodes s ip) \<or> off + n < off then Done (-1) s
      else if unat (off + n) > MAXFILE * BSIZE then Done (-1) s
      else bnd (writei_from ip x (unat off) (unat n) s) (\<lambda>off s.
           if n > 0
           then bnd (iupdate ip (if off > unat (i_size (inodes s ip))
                                 then upd_inode ip (\<lambda>x. x\<lparr>i_size := of_nat off\<rparr>) s else s)) (\<lambda>_ s.
                Done (sint n) s)
           else Done (sint n) s))"
section \<open>Directories\<close>

text \<open>A name as the C array it is in, and back: \<open>namecmp\<close> looks at \<open>DIRSIZ\<close> bytes at most.\<close>

definition name_ptr :: "u8 list \<Rightarrow> cptr" where
  "name_ptr nm = (\<lambda>i. if i < length nm then nm ! i else 0)"

definition namecmp :: "cptr \<Rightarrow> cptr \<Rightarrow> int" where
  "namecmp p q = strncmp p q DIRSIZ"

text \<open>\<open>struct dirent\<close>: the 16 bytes of an inode number and a name.\<close>

definition de_inum :: "u8 list \<Rightarrow> u16" where
  "de_inum bs = ucast (bs ! 0) OR push_bit 8 (ucast (bs ! 1))"

definition de_name :: "u8 list \<Rightarrow> cptr" where
  "de_name bs = name_ptr (take DIRSIZ (drop 2 bs))"

definition mk_dirent :: "u16 \<Rightarrow> cptr \<Rightarrow> u8 list" where
  "mk_dirent inum nm = ucast inum # ucast (drop_bit 8 inum) # map nm [0..<DIRSIZ]"

text \<open>
  The loop of \<open>dirlookup\<close>, from offset \<open>off\<close> on; it returns the inode and the offset of the
  entry. The offset grows by 16 up to the size, which is below \<open>2^32\<close>.
\<close>

function dirlookup_from :: "nat \<Rightarrow> u8 list \<Rightarrow> nat \<Rightarrow> nat \<Rightarrow> 'z fs_st_scheme \<Rightarrow> ((nat \<times> nat) option, 'z fs_st_scheme) outcome" where
  "dirlookup_from dp nm off sz s =
     (if off < sz
      then bnd (readi dp KernDst (of_nat off) 16 s) (\<lambda>(r, de) s.
           if r \<noteq> 16 then Panic ''dirlookup read''
           else if de_inum de = 0 then dirlookup_from dp nm (off + 16) sz s
           else if namecmp (name_ptr nm) (de_name de) = 0
           then bnd (iget (i_dev (inodes s dp)) (ucast (de_inum de)) s) (\<lambda>ip s. Done (Some (ip, off)) s)
           else dirlookup_from dp nm (off + 16) sz s)
      else Done None s)"
  by pat_completeness auto

termination
  by (relation "measure (\<lambda>(dp, nm, off, sz, s). sz - off)") auto

declare dirlookup_from.simps [simp del]

definition dirlookup :: "nat \<Rightarrow> u8 list \<Rightarrow> 'z fs_st_scheme \<Rightarrow> ((nat \<times> nat) option, 'z fs_st_scheme) outcome" where
  "dirlookup dp nm s =
     (if i_type (inodes s dp) \<noteq> T_DIR then Panic ''dirlookup not DIR''
      else dirlookup_from dp nm 0 (unat (i_size (inodes s dp))) s)"

text \<open>The search of \<open>dirlink\<close> for an empty entry.\<close>

function dirlink_slot :: "nat \<Rightarrow> nat \<Rightarrow> nat \<Rightarrow> 'z fs_st_scheme \<Rightarrow> (nat, 'z fs_st_scheme) outcome" where
  "dirlink_slot dp off sz s =
     (if off < sz
      then bnd (readi dp KernDst (of_nat off) 16 s) (\<lambda>(r, de) s.
           if r \<noteq> 16 then Panic ''dirlink read''
           else if de_inum de = 0 then Done off s
           else dirlink_slot dp (off + 16) sz s)
      else Done off s)"
  by pat_completeness auto

termination
  by (relation "measure (\<lambda>(dp, off, sz, s). sz - off)") auto

declare dirlink_slot.simps [simp del]

definition dirlink :: "nat \<Rightarrow> u8 list \<Rightarrow> u32 \<Rightarrow> 'z fs_st_scheme \<Rightarrow> (int, 'z fs_st_scheme) outcome" where
  "dirlink dp nm inum s =
     bnd (dirlookup dp nm s) (\<lambda>r s.
     case r of Some (ip, _) \<Rightarrow> bnd (iput ip s) (\<lambda>_ s. Done (-1) s)
     | None \<Rightarrow>
       bnd (dirlink_slot dp 0 (unat (i_size (inodes s dp))) s) (\<lambda>off s.
       let de = mk_dirent (ucast inum) (strncpy (\<lambda>_. 0) (name_ptr nm) (int DIRSIZ))
       in bnd (writei dp (KernSrc de) (of_nat off) 16 s) (\<lambda>r s.
          if r \<noteq> 16 then Panic ''dirlink'' else Done 0 s)))"

section \<open>Paths\<close>

abbreviation slash :: u8 where "slash \<equiv> 47"

text \<open>
  \<open>skipelem\<close>: the next element of a path, cut to \<open>DIRSIZ\<close> bytes, and the path after it; \<open>None\<close>
  when there is none.
\<close>

definition skipelem :: "u8 list \<Rightarrow> (u8 list \<times> u8 list) option" where
  "skipelem path =
     (let path = dropWhile (\<lambda>c. c = slash) path
      in if path = [] then None
         else let elem = takeWhile (\<lambda>c. c \<noteq> slash) path;
                  rest = dropWhile (\<lambda>c. c = slash) (dropWhile (\<lambda>c. c \<noteq> slash) path)
              in Some (take DIRSIZ elem, rest))"

lemma skipelem_shorter:
  assumes "skipelem path = Some (nm, rest)"
  shows "length rest < length path"
proof -
  let ?p = "dropWhile (\<lambda>c. c = slash) path"
  have "?p \<noteq> []" and rest: "rest = dropWhile (\<lambda>c. c = slash) (dropWhile (\<lambda>c. c \<noteq> slash) ?p)"
    using assms by (auto simp: skipelem_def Let_def split: if_splits)
  then obtain c p where p: "?p = c # p" by (cases ?p) auto
  then have "c \<noteq> slash" by (simp add: dropWhile_eq_Cons_conv)
  then have "dropWhile (\<lambda>c. c \<noteq> slash) ?p = dropWhile (\<lambda>c. c \<noteq> slash) p" unfolding p by simp
  then have "length rest \<le> length (dropWhile (\<lambda>c. c \<noteq> slash) p)" unfolding rest by (simp add: length_dropWhile_le)
  also have "\<dots> \<le> length p" by (rule length_dropWhile_le)
  also have "length p < length ?p" unfolding p by simp
  also have "\<dots> \<le> length path" by (rule length_dropWhile_le)
  finally show ?thesis .
qed

text \<open>
  The loop of \<open>namex\<close>. With \<open>nameiparent\<close> it returns the parent and the last element; a path
  without elements has no parent.
\<close>

function namex_from :: "nat \<Rightarrow> u8 list \<Rightarrow> bool \<Rightarrow> 'z fs_st_scheme \<Rightarrow> ((nat \<times> u8 list) option, 'z fs_st_scheme) outcome" where
  "namex_from ip path parent s =
     (case skipelem path of
        None \<Rightarrow> if parent then bnd (iput ip s) (\<lambda>_ s. Done None s) else Done (Some (ip, [])) s
      | Some (nm, rest) \<Rightarrow>
        bnd (ilock ip s) (\<lambda>_ s.
        if i_type (inodes s ip) \<noteq> T_DIR then bnd (iunlockput ip s) (\<lambda>_ s. Done None s)
        else if parent \<and> rest = [] then bnd (iunlock ip s) (\<lambda>_ s. Done (Some (ip, nm)) s)
        else bnd (dirlookup ip nm s) (\<lambda>r s.
             case r of None \<Rightarrow> bnd (iunlockput ip s) (\<lambda>_ s. Done None s)
             | Some (next, _) \<Rightarrow> bnd (iunlockput ip s) (\<lambda>_ s. namex_from next rest parent s))))"
  by pat_completeness auto

termination
  by (relation "measure (\<lambda>(ip, path, parent, s). length path)") (auto dest: skipelem_shorter)

declare namex_from.simps [simp del]

definition namex :: "u8 list \<Rightarrow> bool \<Rightarrow> 'z fs_st_scheme \<Rightarrow> ((nat \<times> u8 list) option, 'z fs_st_scheme) outcome" where
  "namex path parent s =
     (if path \<noteq> [] \<and> hd path = slash
      then bnd (iget ROOTDEV ROOTINO s) (\<lambda>ip s. namex_from ip path parent s)
      else with_proc (\<lambda>s me. case p_cwd (procs s me) of
             None \<Rightarrow> Undef ''namex: no current directory''
           | Some cwd \<Rightarrow> namex_from cwd path parent (idup cwd s)) s)"

definition namei :: "u8 list \<Rightarrow> 'z fs_st_scheme \<Rightarrow> (nat option, 'z fs_st_scheme) outcome" where
  "namei path s = bnd (namex path False s) (\<lambda>r s. Done (map_option fst r) s)"

definition nameiparent :: "u8 list \<Rightarrow> 'z fs_st_scheme \<Rightarrow> ((nat \<times> u8 list) option, 'z fs_st_scheme) outcome" where
  "nameiparent path s = namex path True s"

end
