(* ===== verification/Xv6_Ring.thy ===== *)
theory Xv6_Ring
  imports Xv6_Prelude
begin

text \<open>
  Ring buffers with free-running counters, as pipes and the console input use them: element \<open>k\<close>
  is stored at index \<open>k mod N\<close>, and the counters are 32-bit words that wrap around. This is right
  because \<open>N\<close> divides \<open>2^32\<close>.
\<close>

definition ring_list :: "nat \<Rightarrow> (nat \<Rightarrow> 'a) \<Rightarrow> u32 \<Rightarrow> nat \<Rightarrow> 'a list" where
  "ring_list N f r n = map (\<lambda>k. f (unat (r + of_nat k) mod N)) [0..<n]"

lemma length_ring_list [simp]: "length (ring_list N f r n) = n"
  by (simp add: ring_list_def)

lemma ring_list_0 [simp]: "ring_list N f r 0 = []"
  by (simp add: ring_list_def)

lemma ring_list_take: "take k (ring_list N f r n) = ring_list N f r (min k n)"
  by (simp add: ring_list_def take_upt_map)

locale ring_buffer =
  fixes N :: nat
  assumes pos: "0 < N" and dvd: "N dvd 2 ^ 32"
begin

lemma index_add: "unat ((r :: u32) + of_nat k) mod N = (unat r + k) mod N"
proof -
  have "unat (r + of_nat k) = (unat r + k) mod 2 ^ 32"
    by (simp add: unat_word_ariths unat_of_nat mod_add_right_eq)
  then show ?thesis using dvd by (simp add: mod_mod_cancel)
qed

lemma index_less: "j < k \<Longrightarrow> k < N \<Longrightarrow> (u + j) mod N \<noteq> (u + k) mod N"
proof
  assume a: "j < k" "k < N" "(u + j) mod N = (u + k) mod N"
  then have "N dvd (u + k) - (u + j)" by (intro mod_eq_dvd_iff_nat [THEN iffD1]) simp_all
  then have "N dvd k - j" by simp
  then have "N \<le> k - j" using a(1) by (intro dvd_imp_le) simp_all
  with a show False by simp
qed

lemma index_neq:
  assumes "j < N" and "k < N" and "j \<noteq> k"
  shows "unat ((r :: u32) + of_nat j) mod N \<noteq> unat (r + of_nat k) mod N"
  unfolding index_add using assms index_less [of j k "unat r"] index_less [of k j "unat r"] by (metis nat_neq_iff)

text \<open>Storing behind the last element, and taking the first one.\<close>

lemma push:
  assumes "n < N"
  shows "ring_list N (f(unat (r + of_nat n) mod N := c)) r (Suc n) = ring_list N f r n @ [c]"
  using assms index_neq [of _ n r] by (auto simp: ring_list_def)

lemma pop: "ring_list N f r (Suc n) = f (unat r mod N) # ring_list N f (r + 1) n"
proof -
  have "[0..<Suc n] = 0 # map Suc [0..<n]" by (simp add: map_Suc_upt upt_conv_Cons)
  then show ?thesis by (simp add: ring_list_def comp_def add.assoc add.commute [of 1] del: upt_Suc)
qed

lemma drop_last: "ring_list N f r (Suc n) = ring_list N f r n @ [f (unat (r + of_nat n) mod N)]"
  by (simp add: ring_list_def)

end

text \<open>The distance between two counters.\<close>

lemma unat_diff_Suc: "unat ((w :: u32) - r) < 2 ^ 32 - 1 \<Longrightarrow> unat (w + 1 - r) = Suc (unat (w - r))"
proof -
  assume "unat (w - r) < 2 ^ 32 - 1"
  then have "unat (w - r + 1) = unat (w - r) + 1" by (simp add: unat_word_ariths)
  then show ?thesis by (simp add: algebra_simps)
qed

lemma unat_diff_pred: "unat ((w :: u32) - r) = Suc n \<Longrightarrow> unat (w - (r + 1)) = n"
proof -
  assume a: "unat (w - r) = Suc n"
  then have "w - r \<noteq> 0" by auto
  then have "unat (w - r - 1) = n" using a by (simp add: unat_minus_one)
  then show ?thesis by (simp add: algebra_simps)
qed

end
