(* ===== verification/Xv6_Pipe.thy ===== *)
theory Xv6_Pipe
  imports Xv6_Fs Xv6_Ring
begin

text \<open>
  \<open>kernel/pipe.c\<close>, and the state of the file layer above the file system: open files
  (\<open>kernel/file.h\<close>), pipes and the console. A pipe lives in a page from \<open>kalloc\<close>; it is a record
  of its own, found by the address of the page.
\<close>

section \<open>State of the file layer\<close>

definition PIPESIZE :: nat where "PIPESIZE = 512"
definition INPUT_BUF :: nat where "INPUT_BUF = 128"
definition NFILE :: nat where "NFILE = 100"
definition NDEV :: nat where "NDEV = 10"

record pipe =
  pi_data :: "nat \<Rightarrow> u8"
  pi_nread :: u32
  pi_nwrite :: u32
  pi_readopen :: bool
  pi_writeopen :: bool

text \<open>The input buffer of \<open>kernel/console.c\<close>.\<close>

record cons =
  c_buf :: "nat \<Rightarrow> u8"
  c_r :: u32
  c_w :: u32
  c_e :: u32

datatype fdtype = FD_NONE | FD_PIPE | FD_INODE | FD_DEVICE

text \<open>\<open>struct file\<close>; pipe and inode pointers are the page address and the cache index.\<close>

record file_rec =
  f_type :: fdtype
  f_ref :: int
  f_readable :: bool
  f_writable :: bool
  f_pipe :: u64
  f_ip :: nat
  f_off :: u32
  f_major :: u16
  f_minor :: u16

text \<open>
  \<open>console_dev d\<close> says that entry \<open>d\<close> of \<open>devsw\<close> has the functions of the console, the only ones
  there are; \<open>uart\<close> is what has been sent to the serial line; \<open>stack_pad\<close> is what the kernel stack
  holds where \<open>filestat\<close> has the padding of its \<open>struct stat\<close>.
\<close>

record file_st = fs_st +
  pipes :: "u64 \<Rightarrow> pipe"
  the_cons :: cons
  console_dev :: "nat \<Rightarrow> bool"
  uart :: "u8 list"
  files :: "nat \<Rightarrow> file_rec"
  stack_pad :: "u8 list"

definition upd_pipe :: "u64 \<Rightarrow> (pipe \<Rightarrow> pipe) \<Rightarrow> 'z file_st_scheme \<Rightarrow> 'z file_st_scheme" where
  "upd_pipe p f s = s\<lparr>pipes := (pipes s)(p := f (pipes s p))\<rparr>"

section \<open>Operations\<close>

definition pipeclose :: "u64 \<Rightarrow> bool \<Rightarrow> 'z file_st_scheme \<Rightarrow> (unit, 'z file_st_scheme) outcome" where
  "pipeclose p writable s =
     (let s = (if writable then wakeup (ChanPipeRead p) (upd_pipe p (\<lambda>q. q\<lparr>pi_writeopen := False\<rparr>) s)
               else wakeup (ChanPipeWrite p) (upd_pipe p (\<lambda>q. q\<lparr>pi_readopen := False\<rparr>) s))
      in if \<not> pi_readopen (pipes s p) \<and> \<not> pi_writeopen (pipes s p) then kfree p s else Done () s)"

text \<open>The loop of \<open>pipewrite\<close>, from byte \<open>i\<close> on with \<open>k\<close> to go, for the process \<open>me\<close>.\<close>

fun pipewrite_from :: "nat \<Rightarrow> u64 \<Rightarrow> u64 \<Rightarrow> int \<Rightarrow> nat \<Rightarrow> nat \<Rightarrow> 'z file_st_scheme \<Rightarrow> (int, 'z file_st_scheme) outcome" where
  "pipewrite_from me p addr n i 0 s = Done n (wakeup (ChanPipeRead p) s)"
| "pipewrite_from me p addr n i (Suc k) s =
     (if pi_nwrite (pipes s p) = pi_nread (pipes s p) + of_nat PIPESIZE
      then if \<not> pi_readopen (pipes s p) \<or> p_killed (procs s me) \<noteq> 0 then Done (-1) s
           else sleep_on (ChanPipeWrite p) (wakeup (ChanPipeRead p) s)
      else bnd (copyin (p_pagetable (procs s me)) (addr + of_nat i) 1 s) (\<lambda>(r, bs) s.
           if r = -1 then Done n (wakeup (ChanPipeRead p) s)
           else pipewrite_from me p addr n (Suc i) k (upd_pipe p (\<lambda>q.
                  q\<lparr>pi_data := (pi_data q)(unat (pi_nwrite q) mod PIPESIZE := hd bs), pi_nwrite := pi_nwrite q + 1\<rparr>) s)))"

definition pipewrite :: "u64 \<Rightarrow> u64 \<Rightarrow> int \<Rightarrow> 'z file_st_scheme \<Rightarrow> (int, 'z file_st_scheme) outcome" where
  "pipewrite p addr n = with_proc (\<lambda>s me. pipewrite_from me p addr n 0 (nat n) s)"

text \<open>The copy loop of \<open>piperead\<close>. A byte whose copy fails has left the pipe.\<close>

fun piperead_from :: "nat \<Rightarrow> u64 \<Rightarrow> u64 \<Rightarrow> nat \<Rightarrow> nat \<Rightarrow> 'z file_st_scheme \<Rightarrow> (nat, 'z file_st_scheme) outcome" where
  "piperead_from me p addr i 0 s = Done i s"
| "piperead_from me p addr i (Suc k) s =
     (if pi_nread (pipes s p) = pi_nwrite (pipes s p) then Done i s
      else let ch = pi_data (pipes s p) (unat (pi_nread (pipes s p)) mod PIPESIZE);
               s = upd_pipe p (\<lambda>q. q\<lparr>pi_nread := pi_nread q + 1\<rparr>) s
           in bnd (copyout (p_pagetable (procs s me)) (addr + of_nat i) [ch] s) (\<lambda>r s.
              if r = -1 then Done i s else piperead_from me p addr (Suc i) k s))"

definition piperead :: "u64 \<Rightarrow> u64 \<Rightarrow> int \<Rightarrow> 'z file_st_scheme \<Rightarrow> (int, 'z file_st_scheme) outcome" where
  "piperead p addr n = with_proc (\<lambda>s me.
     if pi_nread (pipes s p) = pi_nwrite (pipes s p) \<and> pi_writeopen (pipes s p)
     then if p_killed (procs s me) \<noteq> 0 then Done (-1) s else sleep_on (ChanPipeRead p) s
     else bnd (piperead_from me p addr 0 (nat n) s) (\<lambda>i s. Done (int i) (wakeup (ChanPipeWrite p) s)))"

end
