(* ===== verification/Xv6_Quiet.thy ===== *)
theory Xv6_Quiet
  imports Xv6_Pipe Xv6_Copy
begin

text \<open>
  A concrete state of the whole kernel for examples: one process is running, with a given record
  and memory; no file, inode or buffer is in use, and the pipes are empty with counters about to
  wrap around.
\<close>

definition empty_pipe :: pipe where
  "empty_pipe = \<lparr>pi_data = (\<lambda>_. 0), pi_nread = 0xFFFFFFFF, pi_nwrite = 0xFFFFFFFF, pi_readopen = True, pi_writeopen = True\<rparr>"

definition idle_log :: log where
  "idle_log = \<lparr>lg_start = 2, lg_size = 30, lg_outstanding = 0, lg_committing = False, lg_dev = 0, lh_n = 0, lh_block = (\<lambda>_. 0)\<rparr>"

definition idle_inode :: inode where
  "idle_inode = \<lparr>i_dev = 0, i_inum = 0, i_ref = 0, i_lock = initsleeplock ''inode'', i_valid = False, i_type = 0, i_major = 0,
     i_minor = 0, i_nlink = 0, i_size = 0, i_addrs = (\<lambda>_. 0)\<rparr>"

definition closed_file :: file_rec where
  "closed_file = \<lparr>f_type = FD_NONE, f_ref = 0, f_readable = False, f_writable = False, f_pipe = 0, f_ip = 0, f_off = 0,
     f_major = 0, f_minor = 0\<rparr>"

definition small_sb :: superblock where
  "small_sb = \<lparr>sb_magic = FSMAGIC, sb_size = 100, sb_nblocks = 50, sb_ninodes = 20, sb_nlog = 30, sb_logstart = 2,
     sb_inodestart = 32, sb_bmapstart = 34\<rparr>"

definition quiet_st :: "(u64 \<Rightarrow> page) \<Rightarrow> proc \<Rightarrow> file_st" where
  "quiet_st m p = \<lparr>kend = 0x1000, mem = m, freelist = 0, kernel_pagetable = 0, etext = 0, trampoline = 0, satp = 0,
     procs = (\<lambda>_. p), nextpid = 1, initproc = None, cur = Some 0, forkret_addr = 0,
     bufs = (\<lambda>_. boot_buf), lru = \<lparr>nxt = (\<lambda>_. Head), prv = (\<lambda>_. Head)\<rparr>, disk = (\<lambda>_ _. 0), dtrace = [],
     logs = (\<lambda>_. idle_log), sb = small_sb, inodes = (\<lambda>_. idle_inode),
     pipes = (\<lambda>_. empty_pipe), the_cons = \<lparr>c_buf = (\<lambda>_. 0), c_r = 0, c_w = 0, c_e = 0\<rparr>, console_dev = (\<lambda>_. False),
     uart = [], files = (\<lambda>_. closed_file), stack_pad = []\<rparr>"

text \<open>A process whose page table maps \<open>0x1000\<close>.\<close>

definition one_page :: file_st where
  "one_page = quiet_st (mem example_user) (boot_proc\<lparr>p_pagetable := 0x3000\<rparr>)"

lemma one_page_user_ok: "vpn va = 1 \<Longrightarrow> user_ok (mem one_page) 0x3000 va"
  by (simp add: one_page_def quiet_st_def user_ok_def vpn_below_MAXVA example_user_ok(4) example_user_ptes PTE_V_def PTE_U_def)

lemma one_page_phys: "vpn va = 1 \<Longrightarrow> phys (mem one_page) 0x3000 va = (0x7000, unat va mod 4096)"
  by (simp add: one_page_def quiet_st_def phys_def example_user_ok(4) example_user_ptes)

lemma one_page_nodes: "pt_nodes (mem one_page) 0x3000 = {0x3000, 0x5000, 0x6000}"
  by (simp add: one_page_def quiet_st_def example_user_ok(2))

end
