(* ===== verification/Xv6_Pipe_Queue.thy ===== *)
theory Xv6_Pipe_Queue
  imports Xv6_Quiet
begin

text \<open>
  Pipes as bounded queues: what \<open>pipewrite\<close> and \<open>piperead\<close> do to the sequence of bytes in a pipe,
  with counters that wrap around.
\<close>

section \<open>A pipe is a bounded queue\<close>

interpretation pipe_ring: ring_buffer PIPESIZE
  by unfold_locales (simp_all add: PIPESIZE_def)

definition pipe_len :: "pipe \<Rightarrow> nat" where
  "pipe_len q = unat (pi_nwrite q - pi_nread q)"

text \<open>The bytes in the pipe, oldest first.\<close>

definition pipe_list :: "pipe \<Rightarrow> u8 list" where
  "pipe_list q = ring_list PIPESIZE (pi_data q) (pi_nread q) (pipe_len q)"

definition pipe_ok :: "pipe \<Rightarrow> bool" where
  "pipe_ok q \<longleftrightarrow> pipe_len q \<le> PIPESIZE"

lemma length_pipe_list [simp]: "length (pipe_list q) = pipe_len q"
  by (simp add: pipe_list_def)

lemma pipe_full_iff: "pi_nwrite q = pi_nread q + of_nat PIPESIZE \<longleftrightarrow> pipe_len q = PIPESIZE"
proof -
  have "pi_nwrite q = pi_nread q + of_nat PIPESIZE \<longleftrightarrow> pi_nwrite q - pi_nread q = of_nat PIPESIZE"
    by (auto simp: algebra_simps)
  also have "\<dots> \<longleftrightarrow> pipe_len q = PIPESIZE" by (simp add: pipe_len_def word_unat_eq_iff PIPESIZE_def)
  finally show ?thesis .
qed

lemma pipe_empty_iff: "pi_nread q = pi_nwrite q \<longleftrightarrow> pipe_len q = 0"
  by (auto simp: pipe_len_def unat_eq_zero)

lemma pipe_push:
  fixes c :: u8
  assumes "pipe_len q < PIPESIZE"
  defines "q' \<equiv> q\<lparr>pi_data := (pi_data q)(unat (pi_nwrite q) mod PIPESIZE := c), pi_nwrite := pi_nwrite q + 1\<rparr>"
  shows "pipe_list q' = pipe_list q @ [c]" and "pipe_len q' = Suc (pipe_len q)"
proof -
  show l: "pipe_len q' = Suc (pipe_len q)"
    using assms(1) unat_diff_Suc [of "pi_nwrite q" "pi_nread q"] by (simp add: pipe_len_def q'_def PIPESIZE_def)
  have "pi_nread q + of_nat (pipe_len q) = pi_nwrite q" by (simp add: pipe_len_def)
  then show "pipe_list q' = pipe_list q @ [c]"
    using pipe_ring.push [OF assms(1), of "pi_data q" "pi_nread q" c] l by (simp add: pipe_list_def q'_def)
qed

lemma pipe_pop:
  assumes "pipe_len q = Suc n"
  shows "pipe_list q = pi_data q (unat (pi_nread q) mod PIPESIZE) # pipe_list (q\<lparr>pi_nread := pi_nread q + 1\<rparr>)"
    and "pipe_len (q\<lparr>pi_nread := pi_nread q + 1\<rparr>) = n"
proof -
  show "pipe_len (q\<lparr>pi_nread := pi_nread q + 1\<rparr>) = n"
    using assms unat_diff_pred [of "pi_nwrite q" "pi_nread q" n] by (simp add: pipe_len_def)
  then show "pipe_list q = pi_data q (unat (pi_nread q) mod PIPESIZE) # pipe_list (q\<lparr>pi_nread := pi_nread q + 1\<rparr>)"
    using pipe_ring.pop [of "pi_data q" "pi_nread q" n] assms by (simp add: pipe_list_def)
qed

lemma upd_pipe_simps [simp]:
  "pipes (upd_pipe p f s) = (pipes s)(p := f (pipes s p))" "mem (upd_pipe p f s) = mem s"
  "procs (upd_pipe p f s) = procs s" "cur (upd_pipe p f s) = cur s"
  by (simp_all add: upd_pipe_def)

lemma wakeup_pipes [simp]: "pipes (wakeup ch s) = pipes s"
  by (subst wakeup_is_upd) simp

lemma wakeup_mem [simp]: "mem (wakeup ch s) = mem s"
  by (subst wakeup_is_upd) simp

lemma upd_proc_pipes [simp]: "pipes (upd_proc i f s) = pipes s"
  by (simp add: upd_proc_def)

lemma copyin_one:
  assumes "user_ok (mem s) pt va"
  shows "copyin pt va 1 s = Done (0, [byte_at (mem s) (phys (mem s) pt va)]) s"
  using copyin_spec [of pt va 1 s] assms by (auto simp: user_bytes_def)

lemma pipewrite_from_spec:
  fixes addr :: u64 and p :: u64
  assumes "cur s = Some me" and "pipe_ok (pipes s p)" and "pt = p_pagetable (procs s me)"
    and "\<And>j. i \<le> j \<Longrightarrow> j < i + k \<Longrightarrow> user_ok (mem s) pt (addr + of_nat j)"
  defines "Bs \<equiv> \<lambda>j. byte_at (mem s) (phys (mem s) pt (addr + of_nat j))" and "room \<equiv> PIPESIZE - pipe_len (pipes s p)"
  shows "\<exists>s'. pipe_list (pipes s' p) = pipe_list (pipes s p) @ map Bs [i..<i + min k room] \<and> pipe_ok (pipes s' p)
     \<and> pipewrite_from me p addr n i k s =
        (if k \<le> room then Done n s'
         else if pi_readopen (pipes s p) \<and> p_killed (procs s me) = 0 then Block (ChanPipeWrite p) s' else Done (-1) s')"
  using assms(1-4) unfolding Bs_def room_def
proof (induction k arbitrary: i s)
  case 0
  then show ?case by (auto intro!: exI [of _ "wakeup (ChanPipeRead p) s"])
next
  case (Suc k)
  let ?q = "pipes s p"
  show ?case
  proof (cases "pipe_len ?q = PIPESIZE")
    case True
    then show ?thesis using Suc.prems(1,2) by (auto simp: pipe_full_iff sleep_on_def with_proc_def)
  next
    case False
    then have lt: "pipe_len ?q < PIPESIZE" using Suc.prems(2) by (simp add: pipe_ok_def)
    let ?c = "byte_at (mem s) (phys (mem s) pt (addr + of_nat i))"
    let ?s = "upd_pipe p (\<lambda>q. q\<lparr>pi_data := (pi_data q)(unat (pi_nwrite q) mod PIPESIZE := ?c), pi_nwrite := pi_nwrite q + 1\<rparr>) s"
    note push = pipe_push [OF lt, of ?c]
    have step: "pipewrite_from me p addr n i (Suc k) s = pipewrite_from me p addr n (Suc i) k ?s"
      using False copyin_one [OF Suc.prems(4) [of i]] Suc.prems(3) by (simp add: pipe_full_iff)
    have d: "PIPESIZE - pipe_len ?q = Suc (PIPESIZE - Suc (pipe_len ?q))" using lt by simp
    have u: "[i..<i + min (Suc k) (PIPESIZE - pipe_len ?q)] = i # [Suc i..<Suc i + min k (PIPESIZE - Suc (pipe_len ?q))]"
      unfolding d min_Suc_Suc add_Suc_right add_Suc by (rule upt_conv_Cons) simp
    have pl: "pipe_list (pipes ?s p) = pipe_list ?q @ [?c]" "pipe_len (pipes ?s p) = Suc (pipe_len ?q)"
      and fr: "cur ?s = Some me" "mem ?s = mem s" "procs ?s = procs s" "pi_readopen (pipes ?s p) = pi_readopen ?q"
      using push Suc.prems(1) by simp_all
    have "pipe_ok (pipes ?s p)" using pl(2) lt by (simp add: pipe_ok_def)
    moreover have "user_ok (mem ?s) pt (addr + of_nat j)" if "Suc i \<le> j" "j < Suc i + k" for j
      using Suc.prems(4) [of j] that by simp
    ultimately obtain s' where s': "pipe_ok (pipes s' p)" "pipe_list (pipes s' p) = (pipe_list ?q @ [?c])
          @ map (\<lambda>j. byte_at (mem s) (phys (mem s) pt (addr + of_nat j))) [Suc i..<Suc i + min k (PIPESIZE - Suc (pipe_len ?q))]"
      "pipewrite_from me p addr n (Suc i) k ?s = (if k \<le> PIPESIZE - Suc (pipe_len ?q) then Done n s'
         else if pi_readopen ?q \<and> p_killed (procs s me) = 0 then Block (ChanPipeWrite p) s' else Done (-1) s')"
      using Suc.IH [OF fr(1), of "Suc i"] Suc.prems(3) unfolding pl fr(2-) by blast
    show ?thesis
      unfolding step u by (rule exI [of _ s'], unfold s'(2,3)) (simp only: s'(1) d Suc_le_mono list.map append.assoc append.simps simp_thms)
  qed
qed

text \<open>
  C18: \<open>pipewrite\<close> of \<open>n\<close> readable bytes of user memory. As many of them as there is room for are
  appended to the queue, in order. If all fit the call returns \<open>n\<close>; otherwise the process sleeps with
  the pipe full, or gets -1 when the read end is closed or it was killed. The counters may wrap
  around.
\<close>

theorem pipewrite_appends:
  assumes "cur s = Some me" and "pipe_ok (pipes s p)" and "pt = p_pagetable (procs s me)"
    and "\<forall>j < n. user_ok (mem s) pt (addr + of_nat j)"
  shows "\<exists>s'. pipe_list (pipes s' p) = pipe_list (pipes s p) @ take (PIPESIZE - pipe_len (pipes s p)) (user_bytes (mem s) pt addr n)
     \<and> pipe_ok (pipes s' p)
     \<and> pipewrite p addr (int n) s =
        (if n \<le> PIPESIZE - pipe_len (pipes s p) then Done (int n) s'
         else if pi_readopen (pipes s p) \<and> p_killed (procs s me) = 0 then Block (ChanPipeWrite p) s' else Done (-1) s')"
  using pipewrite_from_spec [OF assms(1-3), where i = 0 and k = n and addr = addr and n = "int n"] assms(1,4)
  by (simp add: pipewrite_def with_proc_def user_bytes_def take_upt_map min.commute)

theorem pipewrite_appends_witness:
  "\<exists>s'. pipewrite 0x9000 0x1000 2 one_page = Done 2 s' \<and> pipe_list (pipes s' 0x9000) = [0, 0]"
proof -
  have v: "vpn 0x1000 = 1" "vpn 0x1001 = 1" by (simp_all add: vpn_def)
  have ok: "\<forall>j < 2. user_ok (mem one_page) 0x3000 (0x1000 + of_nat j)"
    using v by (auto simp: less_2_cases_iff intro: one_page_user_ok)
  have b: "user_bytes (mem one_page) 0x3000 0x1000 2 = [0, 0]"
    using v by (simp add: user_bytes_def upt_rec one_page_phys) (simp add: byte_at_def page_byte_def one_page_def quiet_st_def example_user_def)
  have q: "pipes one_page 0x9000 = empty_pipe" "cur one_page = Some 0" "p_pagetable (procs one_page 0) = 0x3000"
    by (simp_all add: one_page_def quiet_st_def)
  have e: "pipe_len empty_pipe = 0" "pipe_ok empty_pipe" "pipe_list empty_pipe = []"
    by (simp_all add: empty_pipe_def pipe_len_def pipe_ok_def pipe_list_def)
  show ?thesis
    using pipewrite_appends [of one_page 0 "0x9000" "0x3000" 2 "0x1000"] ok by (auto simp: q e b PIPESIZE_def)
qed

section \<open>Reading\<close>

lemma copyout_one:
  assumes "user_ok (mem s) pt va" and "fst (phys (mem s) pt va) \<notin> pt_nodes (mem s) pt"
  shows "\<exists>m. copyout pt va [c] s = Done 0 (s\<lparr>mem := m\<rparr>) \<and> pte_of m pt = pte_of (mem s) pt \<and> pt_nodes m pt = pt_nodes (mem s) pt
     \<and> byte_at m (phys (mem s) pt va) = c
     \<and> (\<forall>r. snd r < 4096 \<longrightarrow> r \<noteq> phys (mem s) pt va \<longrightarrow> byte_at m r = byte_at (mem s) r)"
proof -
  obtain s' where s': "copyout pt va [c] s = Done 0 s'" "copied_frame pt {phys (mem s) pt va} s s'"
      "byte_at (mem s') (phys (mem s) pt va) = c"
    using copyout_spec [of "[c]" "\<lambda>_. va" va s pt] assms by (auto simp: lessThan_Suc)
  then obtain m where "s' = s\<lparr>mem := m\<rparr>" unfolding copied_frame_def by blast
  with s' show ?thesis unfolding copied_frame_def by (intro exI [of _ m]) (metis kmem_st.select_convs(2) kmem_st.surjective kmem_st.update_convs(2) singletonD)
qed

lemma piperead_from_spec:
  fixes addr :: u64 and p :: u64
  assumes "pt = p_pagetable (procs s me)" and "P = (\<lambda>j. phys (mem s) pt (addr + of_nat j))" and "inj_on P {i..<i + k}"
    and "\<And>j. i \<le> j \<Longrightarrow> j < i + k \<Longrightarrow> user_ok (mem s) pt (addr + of_nat j) \<and> fst (P j) \<notin> pt_nodes (mem s) pt"
    and "m = min k (pipe_len (pipes s p))"
  shows "\<exists>s'. piperead_from me p addr i k s = Done (i + m) s' \<and> pipe_list (pipes s' p) = drop m (pipe_list (pipes s p))
     \<and> (\<forall>j < m. byte_at (mem s') (P (i + j)) = pipe_list (pipes s p) ! j)
     \<and> (\<forall>r. snd r < 4096 \<longrightarrow> r \<notin> P ` {i..<i + m} \<longrightarrow> byte_at (mem s') r = byte_at (mem s) r)"
  using assms
proof (induction k arbitrary: i s m)
  case 0
  then show ?case by simp
next
  case (Suc k)
  let ?q = "pipes s p"
  show ?case
  proof (cases "pipe_len ?q")
    case 0
    then show ?thesis using Suc.prems(5) by (simp add: pipe_empty_iff)
  next
    case (Suc l)
    note pop = pipe_pop [OF Suc]
    let ?c = "pi_data ?q (unat (pi_nread ?q) mod PIPESIZE)"
    let ?s = "upd_pipe p (\<lambda>q. q\<lparr>pi_nread := pi_nread q + 1\<rparr>) s"
    have "user_ok (mem ?s) pt (addr + of_nat i)" "fst (phys (mem ?s) pt (addr + of_nat i)) \<notin> pt_nodes (mem ?s) pt"
      using Suc.prems(2,4) by auto
    from copyout_one [OF this, of ?c] obtain m1 where m1: "copyout pt (addr + of_nat i) [?c] ?s = Done 0 (?s\<lparr>mem := m1\<rparr>)"
        "pte_of m1 pt = pte_of (mem s) pt" "pt_nodes m1 pt = pt_nodes (mem s) pt" "byte_at m1 (P i) = ?c"
        "\<And>r. snd r < 4096 \<Longrightarrow> r \<noteq> P i \<Longrightarrow> byte_at m1 r = byte_at (mem s) r"
      using Suc.prems(2) by auto
    note cg = phys_user_ok_cong [OF m1(2)]
    let ?s1 = "?s\<lparr>mem := m1\<rparr>" and ?m = "min k l"
    have step: "piperead_from me p addr i (Suc k) s = piperead_from me p addr (Suc i) k ?s1"
      using m1(1) Suc.prems(1) Suc by (simp add: pipe_empty_iff Let_def)
    have "\<exists>s'. piperead_from me p addr (Suc i) k ?s1 = Done (Suc i + ?m) s' \<and> pipe_list (pipes s' p) = drop ?m (pipe_list (pipes ?s1 p))
       \<and> (\<forall>j < ?m. byte_at (mem s') (P (Suc i + j)) = pipe_list (pipes ?s1 p) ! j)
       \<and> (\<forall>r. snd r < 4096 \<longrightarrow> r \<notin> P ` {Suc i..<Suc i + ?m} \<longrightarrow> byte_at (mem s') r = byte_at (mem ?s1) r)"
    proof (rule Suc.IH)
      show "pt = p_pagetable (procs ?s1 me)" using Suc.prems(1) by simp
      show "P = (\<lambda>j. phys (mem ?s1) pt (addr + of_nat j))" using Suc.prems(2) cg(1) by simp
      show "inj_on P {Suc i..<Suc i + k}" using Suc.prems(3) by (rule inj_on_subset) auto
      show "user_ok (mem ?s1) pt (addr + of_nat j) \<and> fst (P j) \<notin> pt_nodes (mem ?s1) pt" if "Suc i \<le> j" "j < Suc i + k" for j
        using Suc.prems(4) [of j] that cg(2) m1(3) by simp
      show "?m = min k (pipe_len (pipes ?s1 p))" using pop(2) by simp
    qed
    then obtain s' where s': "piperead_from me p addr (Suc i) k ?s1 = Done (Suc i + ?m) s'"
        "pipe_list (pipes s' p) = drop ?m (pipe_list (pipes ?s1 p))"
        "\<forall>j < ?m. byte_at (mem s') (P (Suc i + j)) = pipe_list (pipes ?s1 p) ! j"
        "\<forall>r. snd r < 4096 \<longrightarrow> r \<notin> P ` {Suc i..<Suc i + ?m} \<longrightarrow> byte_at (mem s') r = byte_at m1 r"
      by auto
    have m: "m = Suc ?m" using Suc.prems(5) Suc by simp
    have l: "pipe_list ?q = ?c # pipe_list (pipes ?s1 p)" using pop(1) by simp
    have small: "snd (P i) < 4096" using Suc.prems(2) by (simp add: snd_phys_less)
    have "P i \<notin> P ` {Suc i..<Suc i + ?m}"
      using Suc.prems(3) by (auto dest!: inj_onD)
    then have first: "byte_at (mem s') (P i) = ?c" using s'(4) [rule_format, OF small] m1(4) by simp
    have bytes: "byte_at (mem s') (P (i + j)) = pipe_list ?q ! j" if "j < m" for j
      using that first s'(3) unfolding l m by (cases j) auto
    have frame: "byte_at (mem s') r = byte_at (mem s) r" if "snd r < 4096" "r \<notin> P ` {i..<i + m}" for r
    proof -
      have "r \<noteq> P i" "r \<notin> P ` {Suc i..<Suc i + ?m}" using that(2) unfolding m by auto
      then show ?thesis using s'(4) [rule_format, OF that(1)] m1(5) [OF that(1)] by simp
    qed
    show ?thesis
      unfolding step s'(1) l using s'(2) bytes frame l m by (intro exI [of _ s']) auto
  qed
qed

text \<open>
  C19: \<open>piperead\<close> of up to \<open>n\<close> bytes from a pipe that holds some, into distinct user bytes that are
  mapped and are no page-table pages. The oldest bytes are taken out of the queue and stored at
  the address in order; the call returns their number, and no other byte of memory changes.
\<close>

theorem piperead_takes:
  fixes addr :: u64 and p :: u64
  assumes "cur s = Some me" and "pt = p_pagetable (procs s me)" and "P = (\<lambda>j. phys (mem s) pt (addr + of_nat j))"
    and "inj_on P {..<n}" and "\<forall>j < n. user_ok (mem s) pt (addr + of_nat j) \<and> fst (P j) \<notin> pt_nodes (mem s) pt"
    and "pipe_list (pipes s p) \<noteq> []" and "m = min n (length (pipe_list (pipes s p)))"
  shows "\<exists>s'. piperead p addr (int n) s = Done (int m) s' \<and> pipe_list (pipes s' p) = drop m (pipe_list (pipes s p))
     \<and> (\<forall>j < m. byte_at (mem s') (P j) = pipe_list (pipes s p) ! j)
     \<and> (\<forall>r. snd r < 4096 \<longrightarrow> r \<notin> P ` {..<m} \<longrightarrow> byte_at (mem s') r = byte_at (mem s) r)"
proof -
  have "pipe_len (pipes s p) \<noteq> 0" using assms(6) by (metis length_0_conv length_pipe_list)
  then have ne: "pi_nread (pipes s p) \<noteq> pi_nwrite (pipes s p)" by (simp add: pipe_empty_iff)
  obtain s' where s': "piperead_from me p addr 0 n s = Done (0 + m) s'" "pipe_list (pipes s' p) = drop m (pipe_list (pipes s p))"
      "\<forall>j < m. byte_at (mem s') (P (0 + j)) = pipe_list (pipes s p) ! j"
      "\<forall>r. snd r < 4096 \<longrightarrow> r \<notin> P ` {0..<0 + m} \<longrightarrow> byte_at (mem s') r = byte_at (mem s) r"
    using piperead_from_spec [OF assms(2,3), of 0 n m p] assms(4,5,7) by (auto simp: lessThan_atLeast0)
  then show ?thesis
    using ne assms(1) by (intro exI [of _ "wakeup (ChanPipeWrite p) s'"]) (simp add: piperead_def with_proc_def lessThan_atLeast0)
qed

definition one_byte_pipe :: pipe where
  "one_byte_pipe = empty_pipe\<lparr>pi_data := (\<lambda>_. 42), pi_nwrite := 0\<rparr>"

theorem piperead_takes_witness:
  "\<exists>s'. piperead 0x9000 0x1000 1 (one_page\<lparr>pipes := (\<lambda>_. one_byte_pipe)\<rparr>) = Done 1 s'
     \<and> pipe_list (pipes s' 0x9000) = [] \<and> byte_at (mem s') (0x7000, 0) = 42"
proof -
  let ?s = "one_page\<lparr>pipes := (\<lambda>_. one_byte_pipe)\<rparr>" and ?P = "\<lambda>j. phys (mem one_page) 0x3000 (0x1000 + of_nat j)"
  have v: "vpn 0x1000 = 1" by (simp add: vpn_def)
  have q: "cur one_page = Some 0" "p_pagetable (procs one_page 0) = 0x3000" by (simp_all add: one_page_def quiet_st_def)
  have l: "pipe_list one_byte_pipe = [42]"
    by (simp add: one_byte_pipe_def empty_pipe_def pipe_list_def pipe_len_def ring_list_def)
  show ?thesis
    using piperead_takes [of ?s 0 "0x3000" ?P "0x1000" 1 "0x9000" 1] v q l
    by (auto simp: one_page_user_ok one_page_phys one_page_nodes lessThan_Suc)
qed

end
