(* ===== verification/Xv6_Printf.thy ===== *)
theory Xv6_Printf
  imports Xv6_Prelude
begin

text \<open>
  \<open>kernel/printf.c\<close>: the characters that \<open>printf\<close> sends to the console. The variable arguments
  are a list of tagged values; taking one that is missing or of another kind, which C leaves
  undefined, gives \<open>None\<close>. The lock of \<open>printf\<close> makes a call one step.
\<close>

definition ascii :: "string \<Rightarrow> u8 list" where
  "ascii cs = map (\<lambda>c. of_nat (of_char c)) cs"

datatype parg = AInt u32 | APtr u64 | AStr "u8 list option"

definition digits :: "u8 list" where
  "digits = ascii ''0123456789abcdef''"

text \<open>The \<open>do\<close> loop of \<open>printint\<close>: \<open>buf\<close>, from index 0 on.\<close>

function printint_buf :: "nat \<Rightarrow> nat \<Rightarrow> u8 list" where
  "printint_buf base x = (if base \<le> 1 then [] else
     digits ! (x mod base) # (if x div base \<noteq> 0 then printint_buf base (x div base) else []))"
  by pat_completeness auto

termination
  by (relation "measure snd") (auto simp: div_eq_0_iff)

declare printint_buf.simps [simp del]

definition printint :: "u32 \<Rightarrow> nat \<Rightarrow> bool \<Rightarrow> u8 list" where
  "printint xx base sg =
     (let neg = sg \<and> sint xx < 0;
          x = (if neg then - xx else xx);
          buf = printint_buf base (unat x) @ (if neg then ascii ''-'' else [])
      in rev buf)"

definition printptr :: "u64 \<Rightarrow> u8 list" where
  "printptr x = ascii ''0x'' @ map (\<lambda>i. digits ! unat (drop_bit 60 (push_bit (4 * i) x))) [0..<16]"

text \<open>The loop of \<open>printf\<close> over the rest of the format.\<close>

fun printf :: "u8 list \<Rightarrow> parg list \<Rightarrow> u8 list option" where
  "printf [] args = Some []"
| "printf [c] args = Some (if c = 0 \<or> c = 37 then [] else [c])"
| "printf (c # d # fmt) args =
     (if c = 0 then Some []
      else if c \<noteq> 37 then map_option ((#) c) (printf (d # fmt) args)
      else if d = 0 then Some []
      else if [d] = ascii ''d'' then
        (case args of AInt x # as \<Rightarrow> map_option ((@) (printint x 10 True)) (printf fmt as) | _ \<Rightarrow> None)
      else if [d] = ascii ''x'' then
        (case args of AInt x # as \<Rightarrow> map_option ((@) (printint x 16 True)) (printf fmt as) | _ \<Rightarrow> None)
      else if [d] = ascii ''p'' then
        (case args of APtr x # as \<Rightarrow> map_option ((@) (printptr x)) (printf fmt as) | _ \<Rightarrow> None)
      else if [d] = ascii ''s'' then
        (case args of AStr x # as \<Rightarrow>
           map_option ((@) (case x of None \<Rightarrow> ascii ''(null)'' | Some t \<Rightarrow> takeWhile (\<lambda>b. b \<noteq> 0) t)) (printf fmt as)
         | _ \<Rightarrow> None)
      else if d = 37 then map_option ((#) 37) (printf fmt args)
      else map_option (\<lambda>out. 37 # d # out) (printf fmt args))"

end
