(* ===== verification/Xv6_Print_Spec.thy ===== *)
theory Xv6_Print_Spec
  imports Xv6_Printf
begin

text \<open>
  What \<open>printint\<close> and \<open>printptr\<close> print: the digits denote the number, and they fit in the buffer
  \<open>buf[16]\<close> of \<open>printint\<close>.
\<close>

text \<open>The value of a digit, and of digits with the least significant first.\<close>

definition digit_val :: "u8 \<Rightarrow> nat" where
  "digit_val d = length (takeWhile (\<lambda>e. e \<noteq> d) digits)"

definition digits_val :: "nat \<Rightarrow> u8 list \<Rightarrow> nat" where
  "digits_val base ds = foldr (\<lambda>d a. digit_val d + base * a) ds 0"

text \<open>Reading a printed number back: an optional minus sign and digits with the most significant first.\<close>

definition read_int :: "nat \<Rightarrow> u8 list \<Rightarrow> int" where
  "read_int base cs = (if cs \<noteq> [] \<and> hd cs = 45 then - int (digits_val base (rev (tl cs))) else int (digits_val base (rev cs)))"

lemma length_digits [simp]: "length digits = 16"
  by (simp add: digits_def ascii_def)

lemma digit_val_nth [simp]: "k < 16 \<Longrightarrow> digit_val (digits ! k) = k"
proof -
  have "\<forall>k \<in> {..<16}. digit_val (digits ! k) = k" by code_simp
  then show "k < 16 \<Longrightarrow> digit_val (digits ! k) = k" by simp
qed

lemma digits_not_minus: "k < 16 \<Longrightarrow> digits ! k \<noteq> 45"
proof -
  have "\<forall>k \<in> {..<16}. digits ! k \<noteq> 45" by code_simp
  then show "k < 16 \<Longrightarrow> digits ! k \<noteq> 45" by simp
qed

lemma digits_val_simps [simp]:
  "digits_val base [] = 0" "digits_val base (d # ds) = digit_val d + base * digits_val base ds"
  by (simp_all add: digits_val_def)

lemma printint_buf_val:
  assumes "2 \<le> base" and "base \<le> 16"
  shows "digits_val base (printint_buf base x) = x"
  using assms
proof (induction base x rule: printint_buf.induct)
  case (1 base x)
  have "x mod base < base" using 1(2) by simp
  then have "x mod base < 16" using 1(3) by (rule less_le_trans)
  then show ?case
    using 1 by (subst printint_buf.simps) (auto simp: div_eq_0_iff)
qed

lemma printint_buf_chars:
  assumes "2 \<le> base" and "base \<le> 16"
  shows "printint_buf base x \<noteq> [] \<and> 45 \<notin> set (printint_buf base x)"
  using assms
proof (induction base x rule: printint_buf.induct)
  case (1 base x)
  have "x mod base < base" using 1(2) by simp
  then have "x mod base < 16" using 1(3) by (rule less_le_trans)
  then have "digits ! (x mod base) \<noteq> 45" by (rule digits_not_minus)
  then show ?case
    using 1 by (subst (1 2) printint_buf.simps) auto
qed

lemma printint_buf_length:
  assumes "2 \<le> base" and "x < base ^ n" and "0 < n"
  shows "length (printint_buf base x) \<le> n"
  using assms
proof (induction n arbitrary: x)
  case (Suc n)
  show ?case
  proof (cases "x div base = 0")
    case True
    then show ?thesis by (subst printint_buf.simps) simp
  next
    case False
    then have "0 < n" using Suc.prems(1,2) by (cases n) (auto simp: div_eq_0_iff)
    moreover have "x div base < base ^ n" using Suc.prems by (simp add: div_less_iff_less_mult mult.commute)
    ultimately show ?thesis using Suc.IH [of "x div base"] Suc.prems(1) by (subst printint_buf.simps) simp
  qed
qed simp

text \<open>
  C31: \<open>printint\<close> in base 10 or 16 prints a numeral that denotes the argument, as a signed number
  when the sign is asked for and as an unsigned one otherwise. This includes the least \<open>int\<close>, whose
  negation overflows.
\<close>

theorem printint_denotes:
  assumes "base = 10 \<or> base = 16"
  shows "read_int base (printint xx base sg) = (if sg then sint xx else uint xx)"
proof -
  have b: "2 \<le> base" "base \<le> 16" using assms by auto
  have "bit xx 31 \<longleftrightarrow> sint xx < 0" using bit_last_iff [of xx] by simp
  then have s: "sint xx = uint xx - (if sint xx < 0 then 2 ^ 32 else 0)"
    using uint_lt2p [of xx] by (simp add: sint_uint signed_take_bit_eq_take_bit_minus bit_uint_iff take_bit_int_eq_self)
  have neg: "int (unat (- xx)) = - sint xx" if "sint xx < 0"
  proof -
    have "uint xx \<noteq> 0" using that by (auto simp: uint_0_iff)
    then have "uint (- xx) = 2 ^ 32 - uint xx"
      using uint_lt2p [of xx] by (simp add: uint_word_ariths zmod_zminus1_eq_if mod_pos_pos_trivial)
    then show ?thesis using s that by simp
  qed
  have pos: "int (unat xx) = sint xx" if "\<not> sint xx < 0" using s that by simp
  note v = printint_buf_val [OF b] and c = printint_buf_chars [OF b]
  show ?thesis
  proof (cases "sg \<and> sint xx < 0")
    case True
    then show ?thesis using neg v by (simp add: printint_def read_int_def ascii_def)
  next
    case False
    have "hd (rev (printint_buf base (unat xx))) \<noteq> 45"
      using c [of "unat xx"] by (metis hd_in_set rev_is_Nil_conv set_rev)
    then have "read_int base (printint xx base sg) = int (unat xx)"
      using False v c [of "unat xx"] by (auto simp: printint_def read_int_def)
    then show ?thesis using False pos by auto
  qed
qed

theorem printint_denotes_witness:
  "read_int 10 (printint 0x80000000 10 True) = -2147483648 \<and> printint 0x80000000 10 True = ascii ''-2147483648''"
proof -
  have "read_int 10 (printint 0x80000000 10 True) = sint (0x80000000 :: u32)"
    using printint_denotes [of 10 "0x80000000" True] by simp
  moreover have "sint (0x80000000 :: u32) = -2147483648" by simp
  moreover have "printint 0x80000000 10 True = ascii ''-2147483648''"
    by (simp add: printint_def printint_buf.simps ascii_def digits_def)
  ultimately show ?thesis by simp
qed

text \<open>
  C32: With a base of at least 10, the digits and the sign that \<open>printint\<close> stores take at most 11 of
  the 16 bytes of \<open>buf\<close>.
\<close>

theorem printint_fits:
  assumes "10 \<le> base"
  shows "length (printint xx base sg) \<le> 11"
proof -
  have "length (printint_buf base (unat x)) \<le> 10" for x :: u32
  proof (rule printint_buf_length)
    have "unat x < 10 ^ 10" using unat_lt_32 [of x] by simp
    also have "(10 :: nat) ^ 10 \<le> base ^ 10" using assms by (rule power_mono) simp
    finally show "unat x < base ^ 10" .
  qed (use assms in simp_all)
  then have "length (printint_buf base (unat x)) \<le> 10" for x :: u32 .
  from this [of xx] this [of "- xx"] show ?thesis by (simp add: printint_def Let_def ascii_def)
qed

theorem printint_fits_witness: "length (printint 0xFFFFFFFF 16 False) \<le> 11"
  using printint_fits [of 16 "0xFFFFFFFF" False] by simp

end
