(* ===== verification/Xv6_Fs_Spec.thy ===== *)
theory Xv6_Fs_Spec
  imports Xv6_Quiet
begin

text \<open>
  Properties of the file system's data: what the on-disk inode, the free bitmap and a directory
  entry read back as, how paths split into names, and the inode cache as a table without
  duplicates.
\<close>

section \<open>On-disk inodes\<close>

lemma get_put_addrs_at: "k + 4 * n \<le> 1024 \<Longrightarrow> i < n \<Longrightarrow> get32 (put_addrs b k f n) (k + 4 * i) = f i"
  by (induction n) (auto simp: less_Suc_eq get32_put32_other)

lemma get8_put_addrs: "k + 4 * n \<le> 1024 \<Longrightarrow> j < 1024 \<Longrightarrow> j < k \<or> k + 4 * n \<le> j \<Longrightarrow> get8 (put_addrs b k f n) j = get8 b j"
  by (induction n) (auto simp: get8_put32)

lemma get16_put_addrs: "k + 4 * n \<le> 1024 \<Longrightarrow> j + 2 \<le> k \<Longrightarrow> get16 (put_addrs b k f n) j = get16 b j"
  by (simp add: get16_def get8_put_addrs)

lemma get32_put_addrs: "k + 4 * n \<le> 1024 \<Longrightarrow> j + 4 \<le> k \<Longrightarrow> get32 (put_addrs b k f n) j = get32 b j"
  by (simp add: get32_def get16_put_addrs)

lemma get16_put32_before: "k + 4 \<le> 1024 \<Longrightarrow> j + 2 \<le> k \<Longrightarrow> get16 (put32 b k w) j = get16 b j"
  by (simp add: get16_put32_other)

lemma get8_put_dinode:
  assumes "i < IPB" and "j < 1024" and "j < 64 * i \<or> 64 * i + 64 \<le> j"
  shows "get8 (put_dinode b i d) j = get8 b j"
proof -
  have "64 * i + 64 \<le> 1024" using assms(1) by (simp add: IPB_def BSIZE_def)
  then show ?thesis using assms(2,3)
    by (elim disjE) (simp_all add: put_dinode_def Let_def get8_put_addrs get8_put32 get8_put16 NDIRECT_def)
qed

lemma get_dinode_cong:
  assumes "\<And>j. 64 * i \<le> j \<Longrightarrow> j < 64 * i + 64 \<Longrightarrow> get8 b j = get8 b' j" and "n \<le> NDIRECT"
  shows "d_addrs (get_dinode b i) n = d_addrs (get_dinode b' i) n"
    and "(get_dinode b i)\<lparr>d_addrs := f\<rparr> = (get_dinode b' i)\<lparr>d_addrs := f\<rparr>"
  using assms by (simp_all add: get_dinode_def Let_def get32_def get16_def NDIRECT_def)

lemma get_put_dinode:
  assumes "i < IPB" and "n \<le> NDIRECT"
  shows "d_addrs (get_dinode (put_dinode b i d) i) n = d_addrs d n"
    and "(get_dinode (put_dinode b i d) i)\<lparr>d_addrs := f\<rparr> = d\<lparr>d_addrs := f\<rparr>"
proof -
  have k: "64 * i + 64 \<le> 1024" using assms(1) by (simp add: IPB_def BSIZE_def)
  then show "d_addrs (get_dinode (put_dinode b i d) i) n = d_addrs d n"
    using assms(2) get_put_addrs_at [of "64 * i + 12" 13 n] by (simp add: get_dinode_def put_dinode_def Let_def NDIRECT_def)
  show "(get_dinode (put_dinode b i d) i)\<lparr>d_addrs := f\<rparr> = d\<lparr>d_addrs := f\<rparr>"
    using k by (intro dinode.equality)
      (simp_all add: get_dinode_def put_dinode_def Let_def NDIRECT_def get16_put_addrs get32_put_addrs get16_put32_other get16_put16_other)
qed

text \<open>
  C26: An inode that \<open>iupdate\<close> writes to slot \<open>i\<close> of an inode block is what \<open>ilock\<close> reads from that slot, in
  every field and block address, and the other inodes of the block are unchanged.
\<close>

theorem dinode_roundtrip:
  assumes "i < IPB" and "j < IPB" and "n \<le> NDIRECT"
    and b'_def: "b' = put_dinode b i (to_dinode ip)" and x_def: "x = (if j = i then to_dinode ip else get_dinode b j)"
  shows "(get_dinode b' j)\<lparr>d_addrs := f\<rparr> = x\<lparr>d_addrs := f\<rparr> \<and> d_addrs (get_dinode b' j) n = d_addrs x n"
proof (cases "j = i")
  case True
  then show ?thesis unfolding b'_def x_def using get_put_dinode [OF assms(1,3)] by simp
next
  case False
  have "get8 b' l = get8 b l" if "64 * j \<le> l" "l < 64 * j + 64" for l
    unfolding b'_def using that False assms(1,2) by (intro get8_put_dinode) (auto simp: IPB_def BSIZE_def)
  then show ?thesis unfolding x_def using False get_dinode_cong [of j b' b n] assms(3) by simp
qed

theorem dinode_roundtrip_witness:
  "d_addrs (get_dinode (put_dinode (\<lambda>_. 0) 3 (to_dinode (idle_inode\<lparr>i_addrs := (\<lambda>_. 77)\<rparr>))) 3) 12 = 77"
  using dinode_roundtrip [OF _ _ _ refl refl, where i = 3 and j = 3 and n = 12 and b = "\<lambda>_. 0"
      and ip = "idle_inode\<lparr>i_addrs := (\<lambda>_. 77)\<rparr>"]
  by (simp add: IPB_def BSIZE_def NDIRECT_def to_dinode_def)

section \<open>The free bitmap\<close>

lemma bit_bit_mask: "bit (bit_mask i) n \<longleftrightarrow> n = i mod 8"
  by (auto simp: bit_mask_def bit_simps)

lemma bit_used_iff: "bit_used b i \<longleftrightarrow> bit (get8 b (i div 8)) (i mod 8)"
proof -
  have "w AND bit_mask i = 0 \<longleftrightarrow> \<not> bit w (i mod 8)" for w
  proof
    assume "w AND bit_mask i = 0"
    then have "\<not> bit (w AND bit_mask i) (i mod 8)" by simp
    then show "\<not> bit w (i mod 8)" by (simp add: bit_and_iff bit_bit_mask)
  next
    assume "\<not> bit w (i mod 8)"
    then show "w AND bit_mask i = 0" by (intro bit_word_eqI) (auto simp: bit_and_iff bit_bit_mask)
  qed
  then show ?thesis by (simp add: bit_used_def)
qed

text \<open>
  C27: Setting the bit of a block in the free map marks that block as used, clearing it marks it
  as free, and neither touches the bit of another block.
\<close>

theorem bitmap_exact:
  assumes "i < BPB" and "j < BPB"
  shows "(bit_used (bit_set b i) j \<longleftrightarrow> j = i \<or> bit_used b j) \<and> (bit_used (bit_clear b i) j \<longleftrightarrow> j \<noteq> i \<and> bit_used b j)"
proof -
  have "i div 8 < 1024" "j div 8 < 1024" using assms by (auto simp: BPB_def BSIZE_def)
  moreover have "j = i \<longleftrightarrow> j div 8 = i div 8 \<and> j mod 8 = i mod 8" by (metis div_mult_mod_eq)
  moreover have "j mod 8 < 8" by simp
  ultimately show ?thesis
    by (auto simp: bit_used_iff bit_set_def bit_clear_def get8_put8 bit_simps bit_bit_mask)
qed

theorem bitmap_exact_witness: "bit_used (bit_set (\<lambda>_. 0) 9) 9 \<and> \<not> bit_used (bit_set (\<lambda>_. 0) 9) 10"
proof -
  have e: "\<not> bit_used (\<lambda>_. 0) 10" by (simp add: bit_used_iff get8_def)
  show ?thesis
    using bitmap_exact [of 9 9 "\<lambda>_. 0"] bitmap_exact [of 9 10 "\<lambda>_. 0"] e by (simp add: BPB_def BSIZE_def)
qed

section \<open>Paths\<close>

text \<open>The names of a path: the non-empty pieces between slashes, cut to \<open>DIRSIZ\<close> bytes.\<close>

fun pieces :: "u8 list \<Rightarrow> u8 list list" where
  "pieces [] = [[]]"
| "pieces (c # cs) = (if c = slash then [] # pieces cs else (c # hd (pieces cs)) # tl (pieces cs))"

definition names :: "u8 list \<Rightarrow> u8 list list" where
  "names path = map (take DIRSIZ) (filter (\<lambda>x. x \<noteq> []) (pieces path))"

lemma names_simps [simp]: "names [] = []" "names (slash # cs) = names cs"
  by (simp_all add: names_def)

lemma names_skip: "names (dropWhile (\<lambda>c. c = slash) path) = names path"
  by (induction path) auto

lemma pieces_cut: "pieces p = takeWhile (\<lambda>c. c \<noteq> slash) p # tl (pieces (dropWhile (\<lambda>c. c \<noteq> slash) p))"
proof (induction p)
  case (Cons c p)
  then have "hd (pieces p) = takeWhile (\<lambda>c. c \<noteq> slash) p" "tl (pieces p) = tl (pieces (dropWhile (\<lambda>c. c \<noteq> slash) p))"
    by (metis list.sel(1), metis list.sel(3))
  then show ?case by simp
qed simp

lemma names_cut:
  assumes "p \<noteq> []" and "hd p \<noteq> slash"
  shows "names p = take DIRSIZ (takeWhile (\<lambda>c. c \<noteq> slash) p) # names (dropWhile (\<lambda>c. c \<noteq> slash) p)"
proof -
  let ?d = "dropWhile (\<lambda>c. c \<noteq> slash) p"
  have "takeWhile (\<lambda>c. c \<noteq> slash) p \<noteq> []" using assms by (cases p) auto
  moreover have "takeWhile (\<lambda>c. c \<noteq> slash) (dropWhile (\<lambda>c. c \<noteq> slash) q) = []" for q by (induction q) auto
  then have "filter (\<lambda>x. x \<noteq> []) (pieces ?d) = filter (\<lambda>x. x \<noteq> []) (tl (pieces ?d))"
    by (subst pieces_cut) (metis (mono_tags, lifting) filter.simps(2) list.sel(3) pieces_cut)
  ultimately show ?thesis unfolding names_def by (subst pieces_cut) simp
qed

text \<open>
  C25: \<open>skipelem\<close> takes the names of a path off one by one: it reports that there is none exactly when
  the path has no name, and otherwise returns the first name and a path of the others. The rest is the empty
  string exactly when no name is left, which is how \<open>nameiparent\<close> knows the last one.
\<close>

theorem skipelem_splits:
  "case skipelem path of None \<Rightarrow> names path = []
   | Some (nm, rest) \<Rightarrow> names path = nm # names rest \<and> (rest = [] \<longleftrightarrow> names rest = [])"
proof -
  let ?p = "dropWhile (\<lambda>c. c = slash) path"
  let ?r = "dropWhile (\<lambda>c. c = slash) (dropWhile (\<lambda>c. c \<noteq> slash) ?p)"
  have ne: "hd (dropWhile (\<lambda>c. c = slash) q) \<noteq> slash" if "dropWhile (\<lambda>c. c = slash) q \<noteq> []" for q
    using hd_dropWhile [OF that] .
  show ?thesis
  proof (cases "?p = []")
    case True
    have "names path = []" using names_skip [of path] unfolding True by simp
    then show ?thesis unfolding skipelem_def Let_def True by simp
  next
    case False
    have "names ?r = [] \<longleftrightarrow> ?r = []"
      using names_cut [of ?r] ne by (metis list.distinct(1) names_simps(1))
    moreover have "names path = take DIRSIZ (takeWhile (\<lambda>c. c \<noteq> slash) ?p) # names ?r"
      using names_cut [OF False ne [OF False]] names_skip by simp
    ultimately show ?thesis using False by (auto simp: skipelem_def Let_def)
  qed
qed

section \<open>The inode cache\<close>

text \<open>No two entries in use are for the same inode.\<close>

definition icache_ok :: "'z fs_st_scheme \<Rightarrow> bool" where
  "icache_ok s \<longleftrightarrow> (\<forall>i < NINODE. 0 \<le> i_ref (inodes s i)) \<and> (\<forall>i < NINODE. \<forall>j < NINODE. i \<noteq> j \<longrightarrow> 0 < i_ref (inodes s i) \<longrightarrow>
     0 < i_ref (inodes s j) \<longrightarrow> (i_dev (inodes s i), i_inum (inodes s i)) \<noteq> (i_dev (inodes s j), i_inum (inodes s j)))"

lemma inodes_upd [simp]: "inodes (upd_inode i f s) = (inodes s)(i := f (inodes s i))"
  by (simp add: upd_inode_def)



end
