(* ===== verification/Xv6_File.thy ===== *)
theory Xv6_File
  imports Xv6_Pipe Xv6_Printf
begin

text \<open>
  \<open>kernel/console.c\<close>, \<open>kernel/file.c\<close> and \<open>pipealloc\<close> of \<open>kernel/pipe.c\<close>: the console device, open
  files and the operations of file descriptors. The critical sections under \<open>cons.lock\<close> and
  \<open>ftable.lock\<close> are single steps.
\<close>

section \<open>The console\<close>

abbreviation BACKSPACE :: int where "BACKSPACE \<equiv> 256"
abbreviation CONSOLE :: nat where "CONSOLE \<equiv> 1"

definition upd_cons :: "(cons \<Rightarrow> cons) \<Rightarrow> 'z file_st_scheme \<Rightarrow> 'z file_st_scheme" where
  "upd_cons f s = s\<lparr>the_cons := f (the_cons s)\<rparr>"

text \<open>\<open>consputc\<close>; the endless loop on \<open>panicked\<close> is for after a panic, where the model stops.\<close>

definition consputc :: "int \<Rightarrow> 'z file_st_scheme \<Rightarrow> 'z file_st_scheme" where
  "consputc c s = s\<lparr>uart := uart s @ (if c = BACKSPACE then [8, 32, 8] else [of_int c])\<rparr>"

text \<open>Output of \<open>printf\<close>.\<close>

definition kprintf :: "string \<Rightarrow> parg list \<Rightarrow> 'z file_st_scheme \<Rightarrow> (unit, 'z file_st_scheme) outcome" where
  "kprintf fmt args s = (case printf (ascii fmt) args of
     None \<Rightarrow> Undef ''printf: va_arg'' | Some out \<Rightarrow> Done () (s\<lparr>uart := uart s @ out\<rparr>))"

fun consolewrite_from :: "src \<Rightarrow> nat \<Rightarrow> 'z file_st_scheme \<Rightarrow> (unit, 'z file_st_scheme) outcome" where
  "consolewrite_from x 0 s = Done () s"
| "consolewrite_from x (Suc k) s =
     bnd (either_copyin x 1 s) (\<lambda>(r, bs) s.
     if r = -1 then Done () s else consolewrite_from (src_add x 1) k (consputc (uint (hd bs)) s))"

definition consolewrite :: "src \<Rightarrow> int \<Rightarrow> 'z file_st_scheme \<Rightarrow> (int, 'z file_st_scheme) outcome" where
  "consolewrite x n s = bnd (consolewrite_from x (nat n) s) (\<lambda>_ s. Done n s)"

text \<open>
  The loop of \<open>consoleread\<close> with \<open>n\<close> bytes to go; it returns the result and the bytes read. A
  process that finds no input sleeps.
\<close>

fun consoleread_from :: "dst \<Rightarrow> nat \<Rightarrow> nat \<Rightarrow> 'z file_st_scheme \<Rightarrow> (int \<times> u8 list, 'z file_st_scheme) outcome" where
  "consoleread_from d target 0 s = Done (int target, []) s"
| "consoleread_from d target (Suc n) s =
     (if c_r (the_cons s) = c_w (the_cons s)
      then with_proc (\<lambda>s me. if p_killed (procs s me) \<noteq> 0 then Done (-1, []) s else sleep_on ChanCons s) s
      else let c = c_buf (the_cons s) (unat (c_r (the_cons s)) mod INPUT_BUF);
               s = upd_cons (\<lambda>x. x\<lparr>c_r := c_r x + 1\<rparr>) s
           in if c = 4
              then Done (int target - int (Suc n), [])
                     (if Suc n < target then upd_cons (\<lambda>x. x\<lparr>c_r := c_r x - 1\<rparr>) s else s)
              else bnd (either_copyout d [c] s) (\<lambda>e s.
                   if e = -1 then Done (int target - int (Suc n), []) s
                   else if c = 10 then Done (int target - int n, [c]) s
                   else bnd (consoleread_from (dst_add d 1) target n s) (\<lambda>(r, bs) s. Done (r, c # bs) s)))"

definition consoleread :: "dst \<Rightarrow> int \<Rightarrow> 'z file_st_scheme \<Rightarrow> (int \<times> u8 list, 'z file_st_scheme) outcome" where
  "consoleread d n s = consoleread_from d (nat n) (nat n) s"

text \<open>The text of \<open>procdump\<close>, and the loop of \<open>consoleintr\<close> that erases a line.\<close>

definition procdump_print :: "'z file_st_scheme \<Rightarrow> (unit, 'z file_st_scheme) outcome" where
  "procdump_print s =
     bnd (kprintf ''\<newline>'' [] s) (\<lambda>_ s.
     each (\<lambda>(pid, st, nm) s.
       bnd (kprintf ''%d %s %s'' [AInt (of_int pid), AStr (Some (ascii st)), AStr (Some nm)] s) (\<lambda>_ s.
       kprintf ''\<newline>'' [] s)) (procdump s) s)"

fun erase_line :: "nat \<Rightarrow> 'z file_st_scheme \<Rightarrow> 'z file_st_scheme" where
  "erase_line 0 s = s"
| "erase_line (Suc k) s =
     (if c_e (the_cons s) \<noteq> c_w (the_cons s) \<and> c_buf (the_cons s) (unat (c_e (the_cons s) - 1) mod INPUT_BUF) \<noteq> 10
      then erase_line k (consputc BACKSPACE (upd_cons (\<lambda>x. x\<lparr>c_e := c_e x - 1\<rparr>) s))
      else s)"

text \<open>
  \<open>consoleintr\<close> for a character \<open>c\<close>. The line it erases has \<open>e - w\<close> characters, which bounds the
  loop.
\<close>

definition consoleintr :: "int \<Rightarrow> 'z file_st_scheme \<Rightarrow> (unit, 'z file_st_scheme) outcome" where
  "consoleintr c s =
     (if c = 16 then procdump_print s
      else if c = 21 then Done () (erase_line (unat (c_e (the_cons s) - c_w (the_cons s))) s)
      else if c = 8 \<or> c = 127
      then Done () (if c_e (the_cons s) \<noteq> c_w (the_cons s)
                    then consputc BACKSPACE (upd_cons (\<lambda>x. x\<lparr>c_e := c_e x - 1\<rparr>) s) else s)
      else if c \<noteq> 0 \<and> unat (c_e (the_cons s) - c_r (the_cons s)) < INPUT_BUF
      then let c = (if c = 13 then 10 else c);
               s = consputc c s;
               s = upd_cons (\<lambda>x. x\<lparr>c_buf := (c_buf x)(unat (c_e x) mod INPUT_BUF := of_int c), c_e := c_e x + 1\<rparr>) s
           in if c = 10 \<or> c = 4 \<or> c_e (the_cons s) = c_r (the_cons s) + of_nat INPUT_BUF
              then Done () (wakeup ChanCons (upd_cons (\<lambda>x. x\<lparr>c_w := c_e x\<rparr>) s))
              else Done () s
      else Done () s)"

text \<open>\<open>consoleinit\<close>: entries of \<open>devsw\<close>; \<open>uartinit\<close> programs the device.\<close>

definition consoleinit :: "'z file_st_scheme \<Rightarrow> 'z file_st_scheme" where
  "consoleinit s = s\<lparr>console_dev := (console_dev s)(CONSOLE := True)\<rparr>"

section \<open>Open files\<close>

definition upd_file :: "nat \<Rightarrow> (file_rec \<Rightarrow> file_rec) \<Rightarrow> 'z file_st_scheme \<Rightarrow> 'z file_st_scheme" where
  "upd_file f g s = s\<lparr>files := (files s)(f := g (files s f))\<rparr>"

definition filealloc :: "'z file_st_scheme \<Rightarrow> nat option \<times> 'z file_st_scheme" where
  "filealloc s = (case List.find (\<lambda>f. f_ref (files s f) = 0) [0..<NFILE] of
     None \<Rightarrow> (None, s) | Some f \<Rightarrow> (Some f, upd_file f (\<lambda>x. x\<lparr>f_ref := 1\<rparr>) s))"

definition filedup :: "nat \<Rightarrow> 'z file_st_scheme \<Rightarrow> (nat, 'z file_st_scheme) outcome" where
  "filedup f s = (if f_ref (files s f) < 1 then Panic ''filedup''
     else Done f (upd_file f (\<lambda>x. x\<lparr>f_ref := f_ref x + 1\<rparr>) s))"

definition fileclose :: "nat \<Rightarrow> 'z file_st_scheme \<Rightarrow> (unit, 'z file_st_scheme) outcome" where
  "fileclose f s =
     (if f_ref (files s f) < 1 then Panic ''fileclose''
      else let s = upd_file f (\<lambda>x. x\<lparr>f_ref := f_ref x - 1\<rparr>) s
      in if f_ref (files s f) > 0 then Done () s
         else let ff = files s f;
                  s = upd_file f (\<lambda>x. x\<lparr>f_ref := 0, f_type := FD_NONE\<rparr>) s
         in if f_type ff = FD_PIPE then pipeclose (f_pipe ff) (f_writable ff) s
            else if f_type ff = FD_INODE \<or> f_type ff = FD_DEVICE
            then bnd (begin_op (i_dev (inodes s (f_ip ff))) s) (\<lambda>_ s.
                 bnd (iput (f_ip ff) s) (\<lambda>_ s.
                 end_op (i_dev (inodes s (f_ip ff))) s))
            else Done () s)"

text \<open>
  \<open>struct stat\<close> as its 24 bytes. Bytes 12 to 15 are padding that nothing initialises: \<open>stack_pad\<close> of
  the state is what the kernel stack held there.
\<close>

definition le_bytes :: "nat \<Rightarrow> u64 \<Rightarrow> u8 list" where
  "le_bytes n w = map (\<lambda>k. ucast (drop_bit (8 * k) w)) [0..<n]"

definition stat_bytes :: "u8 list \<Rightarrow> stat \<Rightarrow> u8 list" where
  "stat_bytes pad st = le_bytes 4 (ucast (st_dev st)) @ le_bytes 4 (ucast (st_ino st)) @ le_bytes 2 (ucast (st_type st))
     @ le_bytes 2 (ucast (st_nlink st)) @ take 4 (pad @ replicate 4 0) @ le_bytes 8 (st_size st)"

definition filestat :: "nat \<Rightarrow> u64 \<Rightarrow> 'z file_st_scheme \<Rightarrow> (int, 'z file_st_scheme) outcome" where
  "filestat f addr = with_proc (\<lambda>s p.
     if f_type (files s f) = FD_INODE \<or> f_type (files s f) = FD_DEVICE
     then let ip = f_ip (files s f)
          in bnd (ilock ip s) (\<lambda>_ s.
             let st = stati (inodes s ip)
             in bnd (iunlock ip s) (\<lambda>_ s.
                bnd (copyout (p_pagetable (procs s p)) addr (stat_bytes (stack_pad s) st) s) (\<lambda>r s.
                Done (if r < 0 then -1 else 0) s)))
     else Done (-1) s)"

text \<open>\<open>devsw[f->major].read\<close> and \<open>.write\<close>: the entry has functions.\<close>

definition dev_ok :: "file_rec \<Rightarrow> 'z file_st_scheme \<Rightarrow> bool" where
  "dev_ok x s \<longleftrightarrow> \<not> (sint (f_major x) < 0 \<or> sint (f_major x) \<ge> int NDEV \<or> \<not> console_dev s (nat (sint (f_major x))))"

definition fileread :: "nat \<Rightarrow> u64 \<Rightarrow> int \<Rightarrow> 'z file_st_scheme \<Rightarrow> (int, 'z file_st_scheme) outcome" where
  "fileread f addr n s =
     (let x = files s f
      in if \<not> f_readable x then Done (-1) s
         else case f_type x of
           FD_PIPE \<Rightarrow> piperead (f_pipe x) addr n s
         | FD_DEVICE \<Rightarrow> if \<not> dev_ok x s then Done (-1) s
                        else bnd (consoleread (UserDst addr) n s) (\<lambda>(r, _) s. Done r s)
         | FD_INODE \<Rightarrow>
             bnd (ilock (f_ip x) s) (\<lambda>_ s.
             bnd (readi (f_ip x) (UserDst addr) (f_off (files s f)) (of_int n) s) (\<lambda>(r, _) s.
             let s = (if r > 0 then upd_file f (\<lambda>x. x\<lparr>f_off := f_off x + of_int r\<rparr>) s else s)
             in bnd (iunlock (f_ip x) s) (\<lambda>_ s. Done r s)))
         | FD_NONE \<Rightarrow> Panic ''fileread'')"

text \<open>\<open>max\<close> of \<open>filewrite\<close>, and its loop from byte \<open>i\<close> on, which returns where it stopped.\<close>

definition write_max :: nat where
  "write_max = ((MAXOPBLOCKS - 1 - 1 - 2) div 2) * BSIZE"

lemma write_max_pos: "0 < write_max"
  by (simp add: write_max_def MAXOPBLOCKS_def BSIZE_def)

function filewrite_from :: "nat \<Rightarrow> u64 \<Rightarrow> nat \<Rightarrow> nat \<Rightarrow> 'z file_st_scheme \<Rightarrow> (nat, 'z file_st_scheme) outcome" where
  "filewrite_from f addr n i s =
     (if i < n
      then let n1 = min (n - i) write_max; ip = f_ip (files s f)
           in bnd (begin_op (i_dev (inodes s ip)) s) (\<lambda>_ s.
              bnd (ilock ip s) (\<lambda>_ s.
              bnd (writei ip (UserSrc (addr + of_nat i)) (f_off (files s f)) (of_nat n1) s) (\<lambda>r s.
              let s = (if r > 0 then upd_file f (\<lambda>x. x\<lparr>f_off := f_off x + of_int r\<rparr>) s else s)
              in bnd (iunlock ip s) (\<lambda>_ s.
                 bnd (end_op (i_dev (inodes s ip)) s) (\<lambda>_ s.
                 if r < 0 then Done i s
                 else if r \<noteq> int n1 then Panic ''short filewrite''
                 else filewrite_from f addr n (i + n1) s)))))
      else Done i s)"
  by pat_completeness auto

termination
  by (relation "measure (\<lambda>(f, addr, n, i, s). n - i)") (use write_max_pos in auto)

declare filewrite_from.simps [simp del]

definition filewrite :: "nat \<Rightarrow> u64 \<Rightarrow> int \<Rightarrow> 'z file_st_scheme \<Rightarrow> (int, 'z file_st_scheme) outcome" where
  "filewrite f addr n s =
     (let x = files s f
      in if \<not> f_writable x then Done (-1) s
         else case f_type x of
           FD_PIPE \<Rightarrow> pipewrite (f_pipe x) addr n s
         | FD_DEVICE \<Rightarrow> if \<not> dev_ok x s then Done (-1) s else consolewrite (UserSrc addr) n s
         | FD_INODE \<Rightarrow> bnd (filewrite_from f addr (nat n) 0 s) (\<lambda>i s. Done (if int i = n then n else -1) s)
         | FD_NONE \<Rightarrow> Panic ''filewrite'')"

section \<open>Creating a pipe\<close>

text \<open>The part of \<open>pipealloc\<close> after the label \<open>bad\<close>.\<close>

definition pipealloc_bad :: "u64 \<Rightarrow> nat option \<Rightarrow> nat option \<Rightarrow> 'z file_st_scheme
    \<Rightarrow> ((nat \<times> nat) option, 'z file_st_scheme) outcome" where
  "pipealloc_bad p f0 f1 s =
     bnd (if p \<noteq> 0 then kfree p s else Done () s) (\<lambda>_ s.
     bnd (case f0 of Some f \<Rightarrow> fileclose f s | None \<Rightarrow> Done () s) (\<lambda>_ s.
     bnd (case f1 of Some f \<Rightarrow> fileclose f s | None \<Rightarrow> Done () s) (\<lambda>_ s.
     Done None s)))"

definition pipealloc :: "'z file_st_scheme \<Rightarrow> ((nat \<times> nat) option, 'z file_st_scheme) outcome" where
  "pipealloc s =
     (case filealloc s of
        (None, s) \<Rightarrow> pipealloc_bad 0 None None s
      | (Some f0, s) \<Rightarrow>
        (case filealloc s of
           (None, s) \<Rightarrow> pipealloc_bad 0 (Some f0) None s
         | (Some f1, s) \<Rightarrow>
           bnd (kalloc s) (\<lambda>p s.
           if p = 0 then pipealloc_bad 0 (Some f0) (Some f1) s
           else let s = upd_pipe p (\<lambda>q. q\<lparr>pi_readopen := True, pi_writeopen := True, pi_nwrite := 0, pi_nread := 0\<rparr>) s;
                    s = upd_file f0 (\<lambda>x. x\<lparr>f_type := FD_PIPE, f_readable := True, f_writable := False, f_pipe := p\<rparr>) s;
                    s = upd_file f1 (\<lambda>x. x\<lparr>f_type := FD_PIPE, f_readable := False, f_writable := True, f_pipe := p\<rparr>) s
                in Done (Some (f0, f1)) s)))"

end
