(* ===== verification/Xv6_Sys.thy ===== *)
theory Xv6_Sys
  imports Xv6_File Xv6_Spinlock
begin

text \<open>
  Processes and files together: \<open>fork\<close>, \<open>exit\<close> and \<open>userinit\<close> of \<open>kernel/proc.c\<close>, \<open>kernel/exec.c\<close>,
  the system calls (\<open>kernel/syscall.c\<close>, \<open>kernel/sysproc.c\<close>, \<open>kernel/sysfile.c\<close>) and the trap handlers
  (\<open>kernel/trap.c\<close>). A system call returns the \<open>int\<close> that \<open>syscall\<close> converts to the register \<open>a0\<close>.
\<close>

section \<open>State\<close>

text \<open>
  The state of the trap code: the ticks, \<open>first\<close> of \<open>forkret\<close>, the spin locks whose counters
  \<open>sys_ntas\<close> reads, the registers of the CPU that the handlers read and write, the addresses of the
  assembly entry points, and the characters waiting in the UART.
\<close>

record sys_st = file_st +
  ticks :: u32
  first_ret :: bool
  spins :: spin_st
  r_sstatus :: u64
  r_scause :: u64
  r_stval :: u64
  r_sepc :: u64
  r_stvec :: u64
  r_satp :: u64
  r_tp :: u64
  r_sip :: u64
  kernelvec_addr :: u64
  usertrap_addr :: u64
  uservec_off :: u64
  uart_in :: "u8 list"

definition MAXARG :: nat where "MAXARG = 32"
definition MAXPATH :: nat where "MAXPATH = 128"

text \<open>A field of the trapframe of a process.\<close>

abbreviation tf_get :: "nat \<Rightarrow> 9 word \<Rightarrow> 'z proc_st_scheme \<Rightarrow> u64" where
  "tf_get p i s \<equiv> mem s (p_tf (procs s p)) i"

definition tf_set :: "nat \<Rightarrow> 9 word \<Rightarrow> u64 \<Rightarrow> 'z proc_st_scheme \<Rightarrow> 'z proc_st_scheme" where
  "tf_set p i v s = store_pte (p_tf (procs s p), i) v s"

text \<open>A little-endian number, and the field of \<open>n\<close> bytes at offset \<open>k\<close> of a structure.\<close>

fun le_val :: "u8 list \<Rightarrow> u64" where
  "le_val [] = 0"
| "le_val (b # bs) = ucast b OR push_bit 8 (le_val bs)"

definition le_field :: "u8 list \<Rightarrow> nat \<Rightarrow> nat \<Rightarrow> u64" where
  "le_field bs k n = le_val (take n (drop k bs))"

section \<open>Processes: fork, exit and the first process\<close>

definition initcode :: "u8 list" where
  "initcode = [
     0x17, 0x05, 0x00, 0x00, 0x13, 0x05, 0x05, 0x02, 0x97, 0x05, 0x00, 0x00, 0x93, 0x85, 0x05, 0x02,
     0x9d, 0x48, 0x73, 0x00, 0x00, 0x00, 0x89, 0x48, 0x73, 0x00, 0x00, 0x00, 0xef, 0xf0, 0xbf, 0xff,
     0x2f, 0x69, 0x6e, 0x69, 0x74, 0x00, 0x00, 0x01, 0x20, 0x00, 0x00, 0x00, 0x00, 0x00, 0x00, 0x00,
     0x00, 0x00, 0x00]"

definition userinit :: "'z fs_st_scheme \<Rightarrow> (unit, 'z fs_st_scheme) outcome" where
  "userinit s =
     bnd (allocproc s) (\<lambda>r s.
     case r of None \<Rightarrow> Undef ''userinit: no process''
     | Some p \<Rightarrow>
       let s = s\<lparr>initproc := Some p\<rparr>
       in bnd (uvminit (p_pagetable (procs s p)) initcode s) (\<lambda>_ s.
          let s = upd_proc p (\<lambda>x. x\<lparr>p_sz := PGSIZE\<rparr>) s;
              s = tf_set p TF_epc 0 s;
              s = tf_set p TF_sp PGSIZE s;
              s = upd_proc p (\<lambda>x. x\<lparr>p_name := safestrcpy (p_name x) (name_ptr (ascii ''initcode'')) 16\<rparr>) s
          in bnd (namei [slash] s) (\<lambda>r s.
             Done () (upd_proc p (\<lambda>x. x\<lparr>p_cwd := r, p_state := RUNNABLE\<rparr>) s))))"

text \<open>The trapframe has 36 words; the child gets a copy of them.\<close>

definition copy_tf :: "nat \<Rightarrow> nat \<Rightarrow> 'z proc_st_scheme \<Rightarrow> 'z proc_st_scheme" where
  "copy_tf p np s = s\<lparr>mem := (mem s)(p_tf (procs s np) :=
     (\<lambda>i. if i < 36 then mem s (p_tf (procs s p)) i else mem s (p_tf (procs s np)) i))\<rparr>"

definition fork_file :: "nat \<Rightarrow> nat \<Rightarrow> nat \<Rightarrow> 'z file_st_scheme \<Rightarrow> (unit, 'z file_st_scheme) outcome" where
  "fork_file p np i s = (case p_ofile (procs s p) i of None \<Rightarrow> Done () s
     | Some f \<Rightarrow> bnd (filedup f s) (\<lambda>g s. Done () (upd_proc np (\<lambda>x. x\<lparr>p_ofile := (p_ofile x)(i := Some g)\<rparr>) s)))"

definition fork :: "'z file_st_scheme \<Rightarrow> (int, 'z file_st_scheme) outcome" where
  "fork = with_proc (\<lambda>s p.
     bnd (allocproc s) (\<lambda>r s.
     case r of None \<Rightarrow> Done (-1) s
     | Some np \<Rightarrow>
       bnd (uvmcopy (p_pagetable (procs s p)) (p_pagetable (procs s np)) (p_sz (procs s p)) s) (\<lambda>r s.
       if r < 0 then bnd (freeproc np s) (\<lambda>_ s. Done (-1) s)
       else let s = upd_proc np (\<lambda>x. x\<lparr>p_sz := p_sz (procs s p)\<rparr>) s;
                s = upd_proc np (\<lambda>x. x\<lparr>p_parent := Some p\<rparr>) s;
                s = copy_tf p np s;
                s = tf_set np TF_a0 0 s
            in bnd (each (fork_file p np) [0..<NOFILE] s) (\<lambda>_ s.
               case p_cwd (procs s p) of None \<Rightarrow> Undef ''fork: no current directory''
               | Some d \<Rightarrow>
                 let s = upd_proc np (\<lambda>x. x\<lparr>p_cwd := Some d\<rparr>) (idup d s);
                     s = upd_proc np (\<lambda>x. x\<lparr>p_name := safestrcpy (p_name x) (p_name (procs s p)) 16\<rparr>) s;
                     pid = p_pid (procs s np)
                 in Done pid (upd_proc np (\<lambda>x. x\<lparr>p_state := RUNNABLE\<rparr>) s)))))"

text \<open>
  \<open>exit\<close> up to its switch to the scheduler; it never comes back, so \<open>Done\<close> here means that the
  process has left the CPU.
\<close>

definition exit_file :: "nat \<Rightarrow> nat \<Rightarrow> 'z file_st_scheme \<Rightarrow> (unit, 'z file_st_scheme) outcome" where
  "exit_file p fd s = (case p_ofile (procs s p) fd of None \<Rightarrow> Done () s
     | Some f \<Rightarrow> bnd (fileclose f s) (\<lambda>_ s. Done () (upd_proc p (\<lambda>x. x\<lparr>p_ofile := (p_ofile x)(fd := None)\<rparr>) s)))"

definition exit :: "int \<Rightarrow> 'z file_st_scheme \<Rightarrow> (unit, 'z file_st_scheme) outcome" where
  "exit status = with_proc (\<lambda>s p.
     if initproc s = Some p then Panic ''init exiting''
     else bnd (each (exit_file p) [0..<NOFILE] s) (\<lambda>_ s.
          bnd (begin_op ROOTDEV s) (\<lambda>_ s.
          bnd (case p_cwd (procs s p) of None \<Rightarrow> Undef ''exit: no current directory'' | Some d \<Rightarrow> iput d s) (\<lambda>_ s.
          bnd (end_op ROOTDEV s) (\<lambda>_ s.
          let s = upd_proc p (\<lambda>x. x\<lparr>p_cwd := None\<rparr>) s
          in case initproc s of None \<Rightarrow> Undef ''exit: no init process''
             | Some ini \<Rightarrow>
               let s = wakeup1 ini s
               in case p_parent (procs s p) of None \<Rightarrow> Undef ''exit: no parent''
                  | Some original_parent \<Rightarrow>
                    let s = reparent p s;
                        s = wakeup1 original_parent s;
                        s = upd_proc p (\<lambda>x. x\<lparr>p_xstate := status, p_state := ZOMBIE\<rparr>) s
                    in sched s)))))"

section \<open>exec\<close>

definition ELF_MAGIC :: u32 where "ELF_MAGIC = 0x464C457F"
definition ELF_PROG_LOAD :: u32 where "ELF_PROG_LOAD = 1"

text \<open>The fields of the two ELF headers that the code uses, at their offsets in 64 and 56 bytes.\<close>

record elfhdr =
  e_magic :: u32
  e_entry :: u64
  e_phoff :: u64
  e_phnum :: u16

record proghdr =
  ph_type :: u32
  ph_off :: u64
  ph_vaddr :: u64
  ph_filesz :: u64
  ph_memsz :: u64

definition dec_elfhdr :: "u8 list \<Rightarrow> elfhdr" where
  "dec_elfhdr bs = \<lparr>e_magic = ucast (le_field bs 0 4), e_entry = le_field bs 24 8, e_phoff = le_field bs 32 8,
     e_phnum = ucast (le_field bs 56 2)\<rparr>"

definition dec_proghdr :: "u8 list \<Rightarrow> proghdr" where
  "dec_proghdr bs = \<lparr>ph_type = ucast (le_field bs 0 4), ph_off = le_field bs 8 8, ph_vaddr = le_field bs 16 8,
     ph_filesz = le_field bs 32 8, ph_memsz = le_field bs 40 8\<rparr>"

text \<open>
  The loop of \<open>loadseg\<close> from byte \<open>i\<close> on. \<open>readi\<close> copies straight into the page at \<open>pa\<close>. The index
  is a 32-bit number in the code; it cannot wrap, since \<open>bmap\<close> refuses offsets beyond \<open>MAXFILE\<close> blocks.
\<close>

function loadseg_from :: "u64 \<Rightarrow> u64 \<Rightarrow> nat \<Rightarrow> u32 \<Rightarrow> nat \<Rightarrow> nat \<Rightarrow> 'z fs_st_scheme \<Rightarrow> (int, 'z fs_st_scheme) outcome" where
  "loadseg_from pagetable va ip offset sz i s =
     (if i < sz
      then bnd (walkaddr pagetable (va + of_nat i) s) (\<lambda>pa s.
           if pa = 0 then Panic ''loadseg: address should exist''
           else let n = min (sz - i) 4096
                in bnd (readi ip KernDst (offset + of_nat i) (of_nat n) s) (\<lambda>(r, bs) s.
                   let s = memmove_to_page pa 0 bs s
                   in if r \<noteq> int n then Done (-1) s
                      else loadseg_from pagetable va ip offset sz (i + 4096) s))
      else Done 0 s)"
  by pat_completeness auto

termination
  by (relation "measure (\<lambda>(pagetable, va, ip, offset, sz, i, s). sz - i)") auto

declare loadseg_from.simps [simp del]

definition loadseg :: "u64 \<Rightarrow> u64 \<Rightarrow> nat \<Rightarrow> u32 \<Rightarrow> u32 \<Rightarrow> 'z fs_st_scheme \<Rightarrow> (int, 'z fs_st_scheme) outcome" where
  "loadseg pagetable va ip offset sz s =
     (if va mod PGSIZE \<noteq> 0 then Panic ''loadseg: va must be page aligned''
      else loadseg_from pagetable va ip offset (unat sz) 0 s)"

text \<open>
  The loop of \<open>exec\<close> over \<open>k\<close> program headers. It returns whether all went well and the size, which
  the code after \<open>bad\<close> uses. The arguments of \<open>loadseg\<close> are cut to 32 bits.
\<close>

fun exec_load :: "u64 \<Rightarrow> nat \<Rightarrow> nat \<Rightarrow> u32 \<Rightarrow> u64 \<Rightarrow> 'z fs_st_scheme \<Rightarrow> (bool \<times> u64, 'z fs_st_scheme) outcome" where
  "exec_load pagetable ip 0 off sz s = Done (True, sz) s"
| "exec_load pagetable ip (Suc k) off sz s =
     bnd (readi ip KernDst off 56 s) (\<lambda>(r, bs) s.
     if r \<noteq> 56 then Done (False, sz) s
     else let ph = dec_proghdr bs
     in if ph_type ph \<noteq> ELF_PROG_LOAD then exec_load pagetable ip k (off + 56) sz s
        else if ph_memsz ph < ph_filesz ph then Done (False, sz) s
        else if ph_vaddr ph + ph_memsz ph < ph_vaddr ph then Done (False, sz) s
        else bnd (uvmalloc pagetable sz (ph_vaddr ph + ph_memsz ph) s) (\<lambda>sz s.
             if sz = 0 then Done (False, sz) s
             else if ph_vaddr ph mod PGSIZE \<noteq> 0 then Done (False, sz) s
             else bnd (loadseg pagetable (ph_vaddr ph) ip (ucast (ph_off ph)) (ucast (ph_filesz ph)) s) (\<lambda>r s.
                  if r < 0 then Done (False, sz) s
                  else exec_load pagetable ip k (off + 56) sz s)))"

text \<open>The loop that pushes the argument strings: stack pointer and \<open>ustack\<close>, or \<open>None\<close> for \<open>bad\<close>.\<close>

fun exec_push :: "u64 \<Rightarrow> u64 \<Rightarrow> u8 list list \<Rightarrow> u64 \<Rightarrow> u64 list \<Rightarrow> 'z kmem_st_scheme
    \<Rightarrow> ((u64 \<times> u64 list) option, 'z kmem_st_scheme) outcome" where
  "exec_push pagetable stackbase [] sp ustack s = Done (Some (sp, ustack)) s"
| "exec_push pagetable stackbase (a # as) sp ustack s =
     (if length ustack \<ge> MAXARG then Done None s
      else let sp = sp - (of_nat (length a) + 1); sp = sp - sp mod 16
      in if sp < stackbase then Done None s
         else bnd (copyout pagetable sp (a @ [0]) s) (\<lambda>r s.
              if r < 0 then Done None s
              else exec_push pagetable stackbase as sp (ustack @ [sp]) s))"

text \<open>The part of \<open>exec\<close> after the label \<open>bad\<close>; \<open>ip\<close> is \<open>None\<close> once the file is closed.\<close>

definition exec_bad :: "u64 \<Rightarrow> u64 \<Rightarrow> nat option \<Rightarrow> 'z fs_st_scheme \<Rightarrow> (int, 'z fs_st_scheme) outcome" where
  "exec_bad pagetable sz ip s =
     bnd (if pagetable \<noteq> 0 then proc_freepagetable pagetable sz s else Done () s) (\<lambda>_ s.
     bnd (case ip of Some ip \<Rightarrow> bnd (iunlockput ip s) (\<lambda>_ s. end_op ROOTDEV s) | None \<Rightarrow> Done () s) (\<lambda>_ s.
     Done (-1) s))"

text \<open>
  \<open>exec\<close> after the program is loaded: the stack with the arguments, and the switch of the process
  to the new image.
\<close>

definition exec_stack :: "nat \<Rightarrow> u64 \<Rightarrow> u64 \<Rightarrow> u64 \<Rightarrow> u8 list \<Rightarrow> u8 list list \<Rightarrow> 'z fs_st_scheme
    \<Rightarrow> (int, 'z fs_st_scheme) outcome" where
  "exec_stack p pagetable sz entry path argv s =
     (let oldsz = p_sz (procs s p)
      in bnd (uvmalloc pagetable (PGROUNDUP sz) (PGROUNDUP sz + 2 * PGSIZE) s) (\<lambda>sz s.
         if sz = 0 then exec_bad pagetable sz None s
         else bnd (uvmclear pagetable (sz - 2 * PGSIZE) s) (\<lambda>_ s.
              let stackbase = sz - PGSIZE
              in bnd (exec_push pagetable stackbase argv sz [] s) (\<lambda>r s.
                 case r of None \<Rightarrow> exec_bad pagetable sz None s
                 | Some (sp, ustack) \<Rightarrow>
                   let argc = length ustack;
                       sp = sp - (of_nat argc + 1) * 8;
                       sp = sp - sp mod 16
                   in if sp < stackbase then exec_bad pagetable sz None s
                      else bnd (copyout pagetable sp (concat (map (le_bytes 8) (ustack @ [0]))) s) (\<lambda>r s.
                           if r < 0 then exec_bad pagetable sz None s
                           else let s = tf_set p TF_a1 sp s;
                                    nm = rev (takeWhile (\<lambda>c. c \<noteq> slash) (rev path));
                                    s = upd_proc p (\<lambda>x. x\<lparr>p_name := safestrcpy (p_name x) (name_ptr nm) 16\<rparr>) s;
                                    oldpagetable = p_pagetable (procs s p);
                                    s = upd_proc p (\<lambda>x. x\<lparr>p_pagetable := pagetable, p_sz := sz\<rparr>) s;
                                    s = tf_set p TF_epc entry s;
                                    s = tf_set p TF_sp sp s
                                in bnd (proc_freepagetable oldpagetable oldsz s) (\<lambda>_ s. Done (int argc) s))))))"

definition exec :: "u8 list \<Rightarrow> u8 list list \<Rightarrow> 'z fs_st_scheme \<Rightarrow> (int, 'z fs_st_scheme) outcome" where
  "exec path argv = with_proc (\<lambda>s p.
     bnd (begin_op ROOTDEV s) (\<lambda>_ s.
     bnd (namei path s) (\<lambda>r s.
     case r of None \<Rightarrow> bnd (end_op ROOTDEV s) (\<lambda>_ s. Done (-1) s)
     | Some ip \<Rightarrow>
       bnd (ilock ip s) (\<lambda>_ s.
       bnd (readi ip KernDst 0 64 s) (\<lambda>(r, bs) s.
       let elf = dec_elfhdr bs
       in if r \<noteq> 64 then exec_bad 0 0 (Some ip) s
          else if e_magic elf \<noteq> ELF_MAGIC then exec_bad 0 0 (Some ip) s
          else bnd (proc_pagetable p s) (\<lambda>pagetable s.
               if pagetable = 0 then exec_bad 0 0 (Some ip) s
               else bnd (exec_load pagetable ip (unat (e_phnum elf)) (ucast (e_phoff elf)) 0 s) (\<lambda>(ok, sz) s.
                    if \<not> ok then exec_bad pagetable sz (Some ip) s
                    else bnd (iunlockput ip s) (\<lambda>_ s.
                         bnd (end_op ROOTDEV s) (\<lambda>_ s.
                         exec_stack p pagetable sz (e_entry elf) path argv s)))))))))"

end
