(* ===== verification/Xv6_Syscall.thy ===== *)
theory Xv6_Syscall
  imports Xv6_Sys
begin

text \<open>
  The system calls: argument fetching and dispatch (\<open>kernel/syscall.c\<close>), process calls
  (\<open>kernel/sysproc.c\<close>), file calls (\<open>kernel/sysfile.c\<close>), and the trap handlers that lead to them
  (\<open>kernel/trap.c\<close>).
\<close>

section \<open>Arguments\<close>

definition fetchaddr :: "u64 \<Rightarrow> 'z proc_st_scheme \<Rightarrow> (u64 option, 'z proc_st_scheme) outcome" where
  "fetchaddr addr = with_proc (\<lambda>s p.
     if addr \<ge> p_sz (procs s p) \<or> addr + 8 > p_sz (procs s p) then Done None s
     else bnd (copyin (p_pagetable (procs s p)) addr 8 s) (\<lambda>(r, bs) s.
          Done (if r \<noteq> 0 then None else Some (le_val bs)) s))"

text \<open>\<open>fetchstr\<close>: the string it leaves in the buffer, whose length it returns.\<close>

definition fetchstr :: "u64 \<Rightarrow> nat \<Rightarrow> 'z proc_st_scheme \<Rightarrow> (u8 list option, 'z proc_st_scheme) outcome" where
  "fetchstr addr maxlen = with_proc (\<lambda>s p.
     bnd (copyinstr (p_pagetable (procs s p)) addr maxlen s) (\<lambda>(err, bs) s.
     Done (if err < 0 then None else Some (takeWhile (\<lambda>b. b \<noteq> 0) bs)) s))"

definition argraw :: "nat \<Rightarrow> 'z proc_st_scheme \<Rightarrow> (u64, 'z proc_st_scheme) outcome" where
  "argraw n = with_proc (\<lambda>s p. if n \<le> 5 then Done (tf_get p (TF_a0 + of_nat n) s) s else Panic ''argraw'')"

definition argint :: "nat \<Rightarrow> 'z proc_st_scheme \<Rightarrow> (int, 'z proc_st_scheme) outcome" where
  "argint n s = bnd (argraw n s) (\<lambda>w s. Done (sint (ucast w :: u32)) s)"

definition argaddr :: "nat \<Rightarrow> 'z proc_st_scheme \<Rightarrow> (u64, 'z proc_st_scheme) outcome" where
  "argaddr n s = argraw n s"

definition argstr :: "nat \<Rightarrow> nat \<Rightarrow> 'z proc_st_scheme \<Rightarrow> (u8 list option, 'z proc_st_scheme) outcome" where
  "argstr n maxlen s = bnd (argaddr n s) (\<lambda>addr s. fetchstr addr maxlen s)"

section \<open>Process calls\<close>

definition sys_exit :: "'z file_st_scheme \<Rightarrow> (unit, 'z file_st_scheme) outcome" where
  "sys_exit s = bnd (argint 0 s) (\<lambda>n s. exit n s)"

definition sys_getpid :: "'z proc_st_scheme \<Rightarrow> (int, 'z proc_st_scheme) outcome" where
  "sys_getpid = with_proc (\<lambda>s p. Done (p_pid (procs s p)) s)"

definition sys_fork :: "'z file_st_scheme \<Rightarrow> (int, 'z file_st_scheme) outcome" where
  "sys_fork s = fork s"

definition sys_wait :: "'z proc_st_scheme \<Rightarrow> (int, 'z proc_st_scheme) outcome" where
  "sys_wait s = bnd (argaddr 0 s) (\<lambda>p s. wait p s)"

definition sys_sbrk :: "'z proc_st_scheme \<Rightarrow> (int, 'z proc_st_scheme) outcome" where
  "sys_sbrk s = bnd (argint 0 s) (\<lambda>n. with_proc (\<lambda>s p.
     let addr = sint (ucast (p_sz (procs s p)) :: u32)
     in bnd (growproc n s) (\<lambda>r s. Done (if r < 0 then -1 else addr) s)))"

text \<open>
  \<open>sys_sleep\<close> from the point where \<open>ticks0\<close> is read: the first test of the loop. The comparison
  is between unsigned numbers.
\<close>

definition sys_sleep_loop :: "u32 \<Rightarrow> int \<Rightarrow> 'z sys_st_scheme \<Rightarrow> (int, 'z sys_st_scheme) outcome" where
  "sys_sleep_loop ticks0 n = with_proc (\<lambda>s p.
     if ticks s - ticks0 < of_int n
     then if p_killed (procs s p) \<noteq> 0 then Done (-1) s else sleep_on ChanTicks s
     else Done 0 s)"

definition sys_sleep :: "'z sys_st_scheme \<Rightarrow> (int, 'z sys_st_scheme) outcome" where
  "sys_sleep s = bnd (argint 0 s) (\<lambda>n s. sys_sleep_loop (ticks s) n s)"

definition sys_kill :: "'z proc_st_scheme \<Rightarrow> (int, 'z proc_st_scheme) outcome" where
  "sys_kill s = bnd (argint 0 s) (\<lambda>pid s. case kill pid s of (r, s) \<Rightarrow> Done r s)"

definition sys_uptime :: "'z sys_st_scheme \<Rightarrow> (int, 'z sys_st_scheme) outcome" where
  "sys_uptime s = Done (uint (ticks s)) s"

section \<open>File calls\<close>

definition argfd :: "nat \<Rightarrow> 'z proc_st_scheme \<Rightarrow> ((nat \<times> nat) option, 'z proc_st_scheme) outcome" where
  "argfd n s = bnd (argint n s) (\<lambda>fd. with_proc (\<lambda>s p.
     Done (if fd < 0 \<or> fd \<ge> int NOFILE then None
           else map_option (\<lambda>f. (nat fd, f)) (p_ofile (procs s p) (nat fd))) s))"

definition set_fd :: "nat \<Rightarrow> nat option \<Rightarrow> 'z proc_st_scheme \<Rightarrow> (unit, 'z proc_st_scheme) outcome" where
  "set_fd fd f = with_proc (\<lambda>s p. Done () (upd_proc p (\<lambda>x. x\<lparr>p_ofile := (p_ofile x)(fd := f)\<rparr>) s))"

definition fdalloc :: "nat \<Rightarrow> 'z proc_st_scheme \<Rightarrow> (nat option, 'z proc_st_scheme) outcome" where
  "fdalloc f = with_proc (\<lambda>s p.
     case List.find (\<lambda>fd. p_ofile (procs s p) fd = None) [0..<NOFILE] of
       None \<Rightarrow> Done None s
     | Some fd \<Rightarrow> bnd (set_fd fd (Some f) s) (\<lambda>_ s. Done (Some fd) s))"

definition sys_dup :: "'z file_st_scheme \<Rightarrow> (int, 'z file_st_scheme) outcome" where
  "sys_dup s = bnd (argfd 0 s) (\<lambda>r s. case r of None \<Rightarrow> Done (-1) s
     | Some (_, f) \<Rightarrow> bnd (fdalloc f s) (\<lambda>r s. case r of None \<Rightarrow> Done (-1) s
       | Some fd \<Rightarrow> bnd (filedup f s) (\<lambda>_ s. Done (int fd) s)))"

definition sys_read :: "'z file_st_scheme \<Rightarrow> (int, 'z file_st_scheme) outcome" where
  "sys_read s = bnd (argfd 0 s) (\<lambda>r s. case r of None \<Rightarrow> Done (-1) s
     | Some (_, f) \<Rightarrow> bnd (argint 2 s) (\<lambda>n s. bnd (argaddr 1 s) (\<lambda>p s. fileread f p n s)))"

definition sys_write :: "'z file_st_scheme \<Rightarrow> (int, 'z file_st_scheme) outcome" where
  "sys_write s = bnd (argfd 0 s) (\<lambda>r s. case r of None \<Rightarrow> Done (-1) s
     | Some (_, f) \<Rightarrow> bnd (argint 2 s) (\<lambda>n s. bnd (argaddr 1 s) (\<lambda>p s. filewrite f p n s)))"

definition sys_close :: "'z file_st_scheme \<Rightarrow> (int, 'z file_st_scheme) outcome" where
  "sys_close s = bnd (argfd 0 s) (\<lambda>r s. case r of None \<Rightarrow> Done (-1) s
     | Some (fd, f) \<Rightarrow> bnd (set_fd fd None s) (\<lambda>_ s. bnd (fileclose f s) (\<lambda>_ s. Done 0 s)))"

definition sys_fstat :: "'z file_st_scheme \<Rightarrow> (int, 'z file_st_scheme) outcome" where
  "sys_fstat s = bnd (argfd 0 s) (\<lambda>r s. case r of None \<Rightarrow> Done (-1) s
     | Some (_, f) \<Rightarrow> bnd (argaddr 1 s) (\<lambda>st s. filestat f st s))"

text \<open>Ending the transaction of a system call that failed, after releasing the inode \<open>ip\<close>.\<close>

definition fail_op :: "'z fs_st_scheme \<Rightarrow> (int, 'z fs_st_scheme) outcome" where
  "fail_op s = bnd (end_op ROOTDEV s) (\<lambda>_ s. Done (-1) s)"

definition put_fail :: "nat \<Rightarrow> 'z fs_st_scheme \<Rightarrow> (int, 'z fs_st_scheme) outcome" where
  "put_fail ip s = bnd (iunlockput ip s) (\<lambda>_ s. fail_op s)"

text \<open>The part of \<open>sys_link\<close> after the label \<open>bad\<close>.\<close>

definition link_bad :: "nat \<Rightarrow> 'z fs_st_scheme \<Rightarrow> (int, 'z fs_st_scheme) outcome" where
  "link_bad ip s = bnd (ilock ip s) (\<lambda>_ s.
     bnd (iupdate ip (upd_inode ip (\<lambda>x. x\<lparr>i_nlink := i_nlink x - 1\<rparr>) s)) (\<lambda>_ s. put_fail ip s))"

definition sys_link :: "'z fs_st_scheme \<Rightarrow> (int, 'z fs_st_scheme) outcome" where
  "sys_link s =
     bnd (argstr 0 MAXPATH s) (\<lambda>old s. case old of None \<Rightarrow> Done (-1) s | Some old \<Rightarrow>
     bnd (argstr 1 MAXPATH s) (\<lambda>new s. case new of None \<Rightarrow> Done (-1) s | Some new \<Rightarrow>
     bnd (begin_op ROOTDEV s) (\<lambda>_ s.
     bnd (namei old s) (\<lambda>r s. case r of None \<Rightarrow> fail_op s | Some ip \<Rightarrow>
     bnd (ilock ip s) (\<lambda>_ s.
     if i_type (inodes s ip) = T_DIR then put_fail ip s
     else bnd (iupdate ip (upd_inode ip (\<lambda>x. x\<lparr>i_nlink := i_nlink x + 1\<rparr>) s)) (\<lambda>_ s.
          bnd (iunlock ip s) (\<lambda>_ s.
          bnd (nameiparent new s) (\<lambda>r s. case r of None \<Rightarrow> link_bad ip s | Some (dp, nm) \<Rightarrow>
          bnd (ilock dp s) (\<lambda>_ s.
          bnd (if i_dev (inodes s dp) \<noteq> i_dev (inodes s ip) then Done (-1) s
               else dirlink dp nm (i_inum (inodes s ip)) s) (\<lambda>r s.
          bnd (iunlockput dp s) (\<lambda>_ s.
          if r < 0 then link_bad ip s
          else bnd (iput ip s) (\<lambda>_ s. bnd (end_op ROOTDEV s) (\<lambda>_ s. Done 0 s)))))))))))))"

text \<open>The loop of \<open>isdirempty\<close>, from offset \<open>off\<close> on.\<close>

function isdirempty_from :: "nat \<Rightarrow> nat \<Rightarrow> nat \<Rightarrow> 'z fs_st_scheme \<Rightarrow> (bool, 'z fs_st_scheme) outcome" where
  "isdirempty_from dp off sz s =
     (if off < sz
      then bnd (readi dp KernDst (of_nat off) 16 s) (\<lambda>(r, de) s.
           if r \<noteq> 16 then Panic ''isdirempty: readi''
           else if de_inum de \<noteq> 0 then Done False s
           else isdirempty_from dp (off + 16) sz s)
      else Done True s)"
  by pat_completeness auto

termination
  by (relation "measure (\<lambda>(dp, off, sz, s). sz - off)") auto

declare isdirempty_from.simps [simp del]

definition isdirempty :: "nat \<Rightarrow> 'z fs_st_scheme \<Rightarrow> (bool, 'z fs_st_scheme) outcome" where
  "isdirempty dp s = isdirempty_from dp 32 (unat (i_size (inodes s dp))) s"

definition sys_unlink :: "'z fs_st_scheme \<Rightarrow> (int, 'z fs_st_scheme) outcome" where
  "sys_unlink s =
     bnd (argstr 0 MAXPATH s) (\<lambda>path s. case path of None \<Rightarrow> Done (-1) s | Some path \<Rightarrow>
     bnd (begin_op ROOTDEV s) (\<lambda>_ s.
     bnd (nameiparent path s) (\<lambda>r s. case r of None \<Rightarrow> fail_op s | Some (dp, nm) \<Rightarrow>
     bnd (ilock dp s) (\<lambda>_ s.
     if namecmp (name_ptr nm) (name_ptr (ascii ''.'')) = 0 \<or> namecmp (name_ptr nm) (name_ptr (ascii ''..'')) = 0
     then put_fail dp s
     else bnd (dirlookup dp nm s) (\<lambda>r s. case r of None \<Rightarrow> put_fail dp s | Some (ip, off) \<Rightarrow>
     bnd (ilock ip s) (\<lambda>_ s.
     if sint (i_nlink (inodes s ip)) < 1 then Panic ''unlink: nlink < 1''
     else bnd (if i_type (inodes s ip) = T_DIR then isdirempty ip s else Done True s) (\<lambda>empty s.
     if \<not> empty then bnd (iunlockput ip s) (\<lambda>_ s. put_fail dp s)
     else bnd (writei dp (KernSrc (replicate 16 0)) (of_nat off) 16 s) (\<lambda>r s.
     if r \<noteq> 16 then Panic ''unlink: writei''
     else bnd (if i_type (inodes s ip) = T_DIR
               then iupdate dp (upd_inode dp (\<lambda>x. x\<lparr>i_nlink := i_nlink x - 1\<rparr>) s) else Done () s) (\<lambda>_ s.
     bnd (iunlockput dp s) (\<lambda>_ s.
     bnd (iupdate ip (upd_inode ip (\<lambda>x. x\<lparr>i_nlink := i_nlink x - 1\<rparr>) s)) (\<lambda>_ s.
     bnd (iunlockput ip s) (\<lambda>_ s.
     bnd (end_op ROOTDEV s) (\<lambda>_ s. Done 0 s)))))))))))))"

text \<open>The entries \<open>.\<close> and \<open>..\<close> that \<open>create\<close> makes in a new directory.\<close>

definition create_dots :: "nat \<Rightarrow> nat \<Rightarrow> 'z fs_st_scheme \<Rightarrow> (unit, 'z fs_st_scheme) outcome" where
  "create_dots dp ip s =
     bnd (iupdate dp (upd_inode dp (\<lambda>x. x\<lparr>i_nlink := i_nlink x + 1\<rparr>) s)) (\<lambda>_ s.
     bnd (dirlink ip (ascii ''.'') (i_inum (inodes s ip)) s) (\<lambda>r s.
     if r < 0 then Panic ''create dots''
     else bnd (dirlink ip (ascii ''..'') (i_inum (inodes s dp)) s) (\<lambda>r s.
          if r < 0 then Panic ''create dots'' else Done () s)))"

definition create :: "u8 list \<Rightarrow> u16 \<Rightarrow> u16 \<Rightarrow> u16 \<Rightarrow> 'z fs_st_scheme \<Rightarrow> (nat option, 'z fs_st_scheme) outcome" where
  "create path type major minor s =
     bnd (nameiparent path s) (\<lambda>r s. case r of None \<Rightarrow> Done None s | Some (dp, nm) \<Rightarrow>
     bnd (ilock dp s) (\<lambda>_ s.
     bnd (dirlookup dp nm s) (\<lambda>r s.
     case r of
       Some (ip, _) \<Rightarrow>
         bnd (iunlockput dp s) (\<lambda>_ s.
         bnd (ilock ip s) (\<lambda>_ s.
         if type = T_FILE \<and> (i_type (inodes s ip) = T_FILE \<or> i_type (inodes s ip) = T_DEVICE) then Done (Some ip) s
         else bnd (iunlockput ip s) (\<lambda>_ s. Done None s)))
     | None \<Rightarrow>
         bnd (ialloc (i_dev (inodes s dp)) type s) (\<lambda>ip s.
         bnd (ilock ip s) (\<lambda>_ s.
         bnd (iupdate ip (upd_inode ip (\<lambda>x. x\<lparr>i_major := major, i_minor := minor, i_nlink := 1\<rparr>) s)) (\<lambda>_ s.
         bnd (if type = T_DIR then create_dots dp ip s else Done () s) (\<lambda>_ s.
         bnd (dirlink dp nm (i_inum (inodes s ip)) s) (\<lambda>r s.
         if r < 0 then Panic ''create: dirlink''
         else bnd (iunlockput dp s) (\<lambda>_ s. Done (Some ip) s))))))))) "

definition O_WRONLY :: u32 where "O_WRONLY = 0x001"
definition O_RDWR :: u32 where "O_RDWR = 0x002"
definition O_CREATE :: u32 where "O_CREATE = 0x200"

text \<open>\<open>sys_open\<close> from the point where the inode is locked: the file structure and the descriptor.\<close>

definition open_inode :: "nat \<Rightarrow> u32 \<Rightarrow> 'z file_st_scheme \<Rightarrow> (int, 'z file_st_scheme) outcome" where
  "open_inode ip omode s =
     (if i_type (inodes s ip) = T_DEVICE
           \<and> (sint (i_major (inodes s ip)) < 0 \<or> sint (i_major (inodes s ip)) \<ge> int NDEV)
      then put_fail ip s
      else case filealloc s of
        (None, s) \<Rightarrow> put_fail ip s
      | (Some f, s) \<Rightarrow>
        bnd (fdalloc f s) (\<lambda>r s. case r of
          None \<Rightarrow> bnd (fileclose f s) (\<lambda>_ s. put_fail ip s)
        | Some fd \<Rightarrow>
          let s = (if i_type (inodes s ip) = T_DEVICE
                   then upd_file f (\<lambda>x. x\<lparr>f_type := FD_DEVICE, f_major := i_major (inodes s ip), f_minor := i_minor (inodes s ip)\<rparr>) s
                   else upd_file f (\<lambda>x. x\<lparr>f_type := FD_INODE\<rparr>) s);
              s = upd_file f (\<lambda>x. x\<lparr>f_ip := ip, f_off := 0, f_readable := (omode AND O_WRONLY = 0),
                    f_writable := (omode AND O_WRONLY \<noteq> 0 \<or> omode AND O_RDWR \<noteq> 0)\<rparr>) s
          in bnd (iunlock ip s) (\<lambda>_ s.
             bnd (end_op ROOTDEV s) (\<lambda>_ s. Done (int fd) s))))"

definition sys_open :: "'z file_st_scheme \<Rightarrow> (int, 'z file_st_scheme) outcome" where
  "sys_open s =
     bnd (argstr 0 MAXPATH s) (\<lambda>path s. case path of None \<Rightarrow> Done (-1) s | Some path \<Rightarrow>
     bnd (argint 1 s) (\<lambda>n s.
     let omode = (of_int n :: u32)
     in bnd (begin_op ROOTDEV s) (\<lambda>_ s.
        if omode AND O_CREATE \<noteq> 0
        then bnd (create path T_FILE 0 0 s) (\<lambda>r s. case r of None \<Rightarrow> fail_op s | Some ip \<Rightarrow> open_inode ip omode s)
        else bnd (namei path s) (\<lambda>r s. case r of None \<Rightarrow> fail_op s | Some ip \<Rightarrow>
             bnd (ilock ip s) (\<lambda>_ s.
             if i_type (inodes s ip) = T_DIR \<and> omode \<noteq> 0 then put_fail ip s
             else open_inode ip omode s)))))"

definition sys_mkdir :: "'z fs_st_scheme \<Rightarrow> (int, 'z fs_st_scheme) outcome" where
  "sys_mkdir s =
     bnd (begin_op ROOTDEV s) (\<lambda>_ s.
     bnd (argstr 0 MAXPATH s) (\<lambda>path s. case path of None \<Rightarrow> fail_op s | Some path \<Rightarrow>
     bnd (create path T_DIR 0 0 s) (\<lambda>r s. case r of None \<Rightarrow> fail_op s | Some ip \<Rightarrow>
     bnd (iunlockput ip s) (\<lambda>_ s. bnd (end_op ROOTDEV s) (\<lambda>_ s. Done 0 s)))))"

definition sys_mknod :: "'z fs_st_scheme \<Rightarrow> (int, 'z fs_st_scheme) outcome" where
  "sys_mknod s =
     bnd (begin_op ROOTDEV s) (\<lambda>_ s.
     bnd (argstr 0 MAXPATH s) (\<lambda>path s. case path of None \<Rightarrow> fail_op s | Some path \<Rightarrow>
     bnd (argint 1 s) (\<lambda>major s.
     bnd (argint 2 s) (\<lambda>minor s.
     bnd (create path T_DEVICE (of_int major) (of_int minor) s) (\<lambda>r s. case r of None \<Rightarrow> fail_op s | Some ip \<Rightarrow>
     bnd (iunlockput ip s) (\<lambda>_ s. bnd (end_op ROOTDEV s) (\<lambda>_ s. Done 0 s)))))))"

definition sys_chdir :: "'z fs_st_scheme \<Rightarrow> (int, 'z fs_st_scheme) outcome" where
  "sys_chdir = with_proc (\<lambda>s p.
     bnd (begin_op ROOTDEV s) (\<lambda>_ s.
     bnd (argstr 0 MAXPATH s) (\<lambda>path s. case path of None \<Rightarrow> fail_op s | Some path \<Rightarrow>
     bnd (namei path s) (\<lambda>r s. case r of None \<Rightarrow> fail_op s | Some ip \<Rightarrow>
     bnd (ilock ip s) (\<lambda>_ s.
     if i_type (inodes s ip) \<noteq> T_DIR then put_fail ip s
     else bnd (iunlock ip s) (\<lambda>_ s.
          bnd (case p_cwd (procs s p) of None \<Rightarrow> Undef ''chdir: no current directory'' | Some d \<Rightarrow> iput d s) (\<lambda>_ s.
          bnd (end_op ROOTDEV s) (\<lambda>_ s.
          Done 0 (upd_proc p (\<lambda>x. x\<lparr>p_cwd := Some ip\<rparr>) s)))))))))"

text \<open>
  The loop of \<open>sys_exec\<close> with room for \<open>k\<close> more arguments: whether it ended with a null pointer, and
  the pages with the strings in them.
\<close>

fun exec_args :: "u64 \<Rightarrow> nat \<Rightarrow> (u64 \<times> u8 list) list \<Rightarrow> 'z proc_st_scheme
    \<Rightarrow> (bool \<times> (u64 \<times> u8 list) list, 'z proc_st_scheme) outcome" where
  "exec_args uargv 0 argv s = Done (False, argv) s"
| "exec_args uargv (Suc k) argv s =
     bnd (fetchaddr (uargv + 8 * of_nat (length argv)) s) (\<lambda>r s. case r of
       None \<Rightarrow> Done (False, argv) s
     | Some uarg \<Rightarrow>
       if uarg = 0 then Done (True, argv) s
       else bnd (kalloc s) (\<lambda>pa s.
            if pa = 0 then Panic ''sys_exec kalloc''
            else bnd (fetchstr uarg 4096 s) (\<lambda>r s. case r of
              None \<Rightarrow> Done (False, argv @ [(pa, [])]) s
            | Some bs \<Rightarrow> exec_args uargv k (argv @ [(pa, bs)]) (memmove_to_page pa 0 (bs @ [0]) s))))"

definition sys_exec :: "'z fs_st_scheme \<Rightarrow> (int, 'z fs_st_scheme) outcome" where
  "sys_exec s =
     bnd (argstr 0 MAXPATH s) (\<lambda>path s. case path of None \<Rightarrow> Done (-1) s | Some path \<Rightarrow>
     bnd (argaddr 1 s) (\<lambda>uargv s.
     bnd (exec_args uargv MAXARG [] s) (\<lambda>(ok, argv) s.
     bnd (if ok then exec path (map snd argv) s else Done (-1) s) (\<lambda>ret s.
     bnd (each kfree (map fst argv) s) (\<lambda>_ s.
     Done ret s)))))"

definition sys_pipe :: "'z file_st_scheme \<Rightarrow> (int, 'z file_st_scheme) outcome" where
  "sys_pipe = with_proc (\<lambda>s p.
     bnd (argaddr 0 s) (\<lambda>fdarray s.
     bnd (pipealloc s) (\<lambda>r s. case r of None \<Rightarrow> Done (-1) s | Some (rfile, wfile) \<Rightarrow>
     let close_both = (\<lambda>s. bnd (fileclose rfile s) (\<lambda>_ s. bnd (fileclose wfile s) (\<lambda>_ s. Done (-1) s)))
     in bnd (fdalloc rfile s) (\<lambda>r s. case r of None \<Rightarrow> close_both s | Some fd0 \<Rightarrow>
        bnd (fdalloc wfile s) (\<lambda>r s. case r of None \<Rightarrow> bnd (set_fd fd0 None s) (\<lambda>_ s. close_both s) | Some fd1 \<Rightarrow>
        bnd (copyout (p_pagetable (procs s p)) fdarray (int_bytes (of_nat fd0)) s) (\<lambda>r s.
        bnd (if r < 0 then Done r s
             else copyout (p_pagetable (procs s p)) (fdarray + 4) (int_bytes (of_nat fd1)) s) (\<lambda>r s.
        if r < 0 then bnd (set_fd fd0 None s) (\<lambda>_ s. bnd (set_fd fd1 None s) (\<lambda>_ s. close_both s))
        else Done 0 s)))))))"

end
