(* ===== verification/Xv6_Trap.thy ===== *)
theory Xv6_Trap
  imports Xv6_Syscall
begin

text \<open>
  \<open>kernel/trap.c\<close>, the dispatch of \<open>kernel/syscall.c\<close> and \<open>forkret\<close> of \<open>kernel/proc.c\<close>. Handlers that
  may leave the process for good return a \<open>bool\<close>: \<open>True\<close> when the process goes on.
\<close>

section \<open>System call dispatch\<close>

text \<open>\<open>sys_ntas\<close> with its output; then the table \<open>syscalls\<close>, for the calls that return a value.\<close>

definition print_locks :: "(string \<times> u32 \<times> u32) list \<Rightarrow> 'z file_st_scheme \<Rightarrow> (unit, 'z file_st_scheme) outcome" where
  "print_locks = each (\<lambda>(nm, nts, cnt). kprintf ''lock: %s: #test-and-set %d #acquire() %d\<newline>''
     [AStr (Some (ascii nm)), AInt nts, AInt cnt])"

definition sys_ntas_call :: "'z sys_st_scheme \<Rightarrow> (int, 'z sys_st_scheme) outcome" where
  "sys_ntas_call s = bnd (argint 0 s) (\<lambda>n s.
     case sys_ntas (Some n) (spins s) of
       Done (r, None) sp \<Rightarrow> Done r (s\<lparr>spins := sp\<rparr>)
     | Done (r, Some (watched, tops)) sp \<Rightarrow>
         bnd (kprintf ''=== lock kmem/bcache stats\<newline>'' [] (s\<lparr>spins := sp\<rparr>)) (\<lambda>_ s.
         bnd (print_locks watched s) (\<lambda>_ s.
         bnd (kprintf ''=== top 5 contended locks:\<newline>'' [] s) (\<lambda>_ s.
         bnd (print_locks tops s) (\<lambda>_ s. Done r s))))
     | Panic m \<Rightarrow> Panic m
     | Block c sp \<Rightarrow> Block c (s\<lparr>spins := sp\<rparr>)
     | Undef m \<Rightarrow> Undef m)"

definition syscalls :: "int \<Rightarrow> ('z sys_st_scheme \<Rightarrow> (int, 'z sys_st_scheme) outcome) option" where
  "syscalls num = map_of [(1, sys_fork), (3, sys_wait), (4, sys_pipe), (5, sys_read), (6, sys_kill), (7, sys_exec),
     (8, sys_fstat), (9, sys_chdir), (10, sys_dup), (11, sys_getpid), (12, sys_sbrk), (13, sys_sleep), (14, sys_uptime),
     (15, sys_open), (16, sys_write), (17, sys_mknod), (18, sys_unlink), (19, sys_link), (20, sys_mkdir), (21, sys_close),
     (22, sys_ntas_call)] num"

text \<open>\<open>exit\<close>, number 2, does not return.\<close>

definition syscall :: "'z sys_st_scheme \<Rightarrow> (bool, 'z sys_st_scheme) outcome" where
  "syscall = with_proc (\<lambda>s p.
     let num = sint (ucast (tf_get p TF_a7 s) :: u32)
     in if num = 2 then bnd (sys_exit s) (\<lambda>_ s. Done False s)
        else case syscalls num of
          Some f \<Rightarrow> bnd (f s) (\<lambda>r s. Done True (tf_set p TF_a0 (of_int r) s))
        | None \<Rightarrow>
          bnd (kprintf ''%d %s: unknown sys call %d\<newline>''
                 [AInt (of_int (p_pid (procs s p))), AStr (Some (cstr 16 (p_name (procs s p)))), AInt (of_int num)] s) (\<lambda>_ s.
          Done True (tf_set p TF_a0 (-1) s)))"

section \<open>Interrupts\<close>

definition clockintr :: "'z sys_st_scheme \<Rightarrow> 'z sys_st_scheme" where
  "clockintr s = wakeup ChanTicks (s\<lparr>ticks := ticks s + 1\<rparr>)"

text \<open>\<open>uartintr\<close> on the characters waiting in the device.\<close>

definition uartintr :: "'z sys_st_scheme \<Rightarrow> (unit, 'z sys_st_scheme) outcome" where
  "uartintr s = each (\<lambda>c. consoleintr (uint c)) (uart_in s) (s\<lparr>uart_in := []\<rparr>)"

abbreviation UART0_IRQ :: nat where "UART0_IRQ \<equiv> 10"

text \<open>
  \<open>devintr\<close>, where \<open>irq\<close> is the answer of \<open>plic_claim\<close>. A disk interrupt only reports the end of a
  transfer, which the model of \<open>virtio_disk_rw\<close> has made already.
\<close>

definition devintr :: "nat \<Rightarrow> 'z sys_st_scheme \<Rightarrow> (nat, 'z sys_st_scheme) outcome" where
  "devintr irq s =
     (if bit (r_scause s) 63 \<and> r_scause s AND 0xff = 9
      then bnd (if irq = UART0_IRQ then uartintr s else Done () s) (\<lambda>_ s. Done 1 s)
      else if r_scause s = 0x8000000000000001
      then let s = (if r_tp s = 0 then clockintr s else s) in Done 2 (s\<lparr>r_sip := r_sip s AND NOT 2\<rparr>)
      else Done 0 s)"

definition intr_desc :: "string list" where
  "intr_desc = [''user software interrupt'', ''supervisor software interrupt'',
     ''<reserved for future standard use>'', ''<reserved for future standard use>'',
     ''user timer interrupt'', ''supervisor timer interrupt'',
     ''<reserved for future standard use>'', ''<reserved for future standard use>'',
     ''user external interrupt'', ''supervisor external interrupt'',
     ''<reserved for future standard use>'', ''<reserved for future standard use>'', ''<reserved for future standard use>'',
     ''<reserved for future standard use>'', ''<reserved for future standard use>'', ''<reserved for future standard use>'']"

definition nointr_desc :: "string list" where
  "nointr_desc = [''instruction address misaligned'', ''instruction access fault'', ''illegal instruction'', ''breakpoint'',
     ''load address misaligned'', ''load access fault'', ''store/AMO address misaligned'', ''store/AMO access fault'',
     ''environment call from U-mode'', ''environment call from S-mode'',
     ''<reserved for future standard use>'', ''<reserved for future standard use>'',
     ''instruction page fault'', ''load page fault'', ''<reserved for future standard use>'', ''store/AMO page fault'']"

definition scause_desc :: "u64 \<Rightarrow> string" where
  "scause_desc stval =
     (let code = stval AND NOT 0x8000000000000000
      in if stval AND 0x8000000000000000 \<noteq> 0
         then if code < 16 then intr_desc ! unat code else ''<reserved for platform use>''
         else if code < 16 then nointr_desc ! unat code
         else if code \<le> 23 then ''<reserved for future standard use>''
         else if code \<le> 31 then ''<reserved for custom use>''
         else if code \<le> 47 then ''<reserved for future standard use>''
         else if code \<le> 63 then ''<reserved for custom use>''
         else ''<reserved for future standard use>'')"

section \<open>Traps\<close>

abbreviation SSTATUS_SPP :: u64 where "SSTATUS_SPP \<equiv> 0x100"
abbreviation SSTATUS_SPIE :: u64 where "SSTATUS_SPIE \<equiv> 0x20"
abbreviation SSTATUS_SIE :: u64 where "SSTATUS_SIE \<equiv> 0x2"

text \<open>
  \<open>usertrapret\<close> up to the jump to the trampoline; it returns the two arguments of \<open>userret\<close>.
\<close>

definition usertrapret :: "'z sys_st_scheme \<Rightarrow> (u64 \<times> u64, 'z sys_st_scheme) outcome" where
  "usertrapret = with_proc (\<lambda>s p.
     let s = s\<lparr>r_sstatus := r_sstatus s AND NOT SSTATUS_SIE\<rparr>;
         s = s\<lparr>r_stvec := TRAMPOLINE + uservec_off s\<rparr>;
         s = tf_set p 0 (r_satp s) s;
         s = tf_set p 1 (p_kstack (procs s p) + PGSIZE) s;
         s = tf_set p 2 (usertrap_addr s) s;
         s = tf_set p 4 (r_tp s) s;
         s = s\<lparr>r_sstatus := (r_sstatus s AND NOT SSTATUS_SPP) OR SSTATUS_SPIE\<rparr>;
         s = s\<lparr>r_sepc := tf_get p TF_epc s\<rparr>
     in Done (TRAPFRAME, MAKE_SATP (p_pagetable (procs s p))) s)"

text \<open>
  \<open>usertrap\<close>. The result is \<open>None\<close> when the process left the CPU (it exited, or yields on a timer
  interrupt and goes on with \<open>usertrapret\<close> when it is scheduled again).
\<close>

definition usertrap :: "nat \<Rightarrow> 'z sys_st_scheme \<Rightarrow> ((u64 \<times> u64) option, 'z sys_st_scheme) outcome" where
  "usertrap irq s =
     (if r_sstatus s AND SSTATUS_SPP \<noteq> 0 then Panic ''usertrap: not from user mode''
      else with_proc (\<lambda>s p.
        let s = tf_set p TF_epc (r_sepc s) s
        in bnd (if r_scause s = 8
                then if p_killed (procs s p) \<noteq> 0 then bnd (exit (-1) s) (\<lambda>_ s. Done (False, 0) s)
                     else bnd (syscall (tf_set p TF_epc (tf_get p TF_epc s + 4) s\<lparr>r_sstatus := r_sstatus s OR SSTATUS_SIE\<rparr>)) (\<lambda>on s.
                          Done (on, 0) s)
                else bnd (devintr irq s) (\<lambda>which_dev s.
                     if which_dev \<noteq> 0 then Done (True, which_dev) s
                     else bnd (kprintf ''usertrap(): unexpected scause %p (%s) pid=%d\<newline>''
                                 [APtr (r_scause s), AStr (Some (ascii (scause_desc (r_scause s)))), AInt (of_int (p_pid (procs s p)))] s) (\<lambda>_ s.
                          bnd (kprintf ''            sepc=%p stval=%p\<newline>'' [APtr (r_sepc s), APtr (r_stval s)] s) (\<lambda>_ s.
                          Done (True, 0) (upd_proc p (\<lambda>x. x\<lparr>p_killed := 1\<rparr>) s))))) (\<lambda>(on, which_dev) s.
           if \<not> on then Done None s
           else if p_killed (procs s p) \<noteq> 0 then bnd (exit (-1) s) (\<lambda>_ s. Done None s)
           else if which_dev = 2 then bnd (yield s) (\<lambda>_ s. Done None s)
           else bnd (usertrapret s) (\<lambda>r s. Done (Some r) s))) (s\<lparr>r_stvec := kernelvec_addr s\<rparr>))"

text \<open>\<open>kerneltrap\<close>, which restores the registers after a \<open>yield\<close> in which others may have changed.\<close>

definition kerneltrap :: "nat \<Rightarrow> 'z sys_st_scheme \<Rightarrow> (unit, 'z sys_st_scheme) outcome" where
  "kerneltrap irq s =
     (let sepc = r_sepc s; sstatus = r_sstatus s; scause = r_scause s
      in if sstatus AND SSTATUS_SPP = 0 then Panic ''kerneltrap: not from supervisor mode''
         else if r_sstatus s AND SSTATUS_SIE \<noteq> 0 then Panic ''kerneltrap: interrupts enabled''
         else bnd (devintr irq s) (\<lambda>which_dev s.
              if which_dev = 0
              then bnd (kprintf ''scause %p (%s)\<newline>'' [APtr scause, AStr (Some (ascii (scause_desc scause)))] s) (\<lambda>_ s.
                   bnd (kprintf ''sepc=%p stval=%p\<newline>'' [APtr (r_sepc s), APtr (r_stval s)] s) (\<lambda>_ s.
                   Panic ''kerneltrap''))
              else bnd (case cur s of
                          Some p \<Rightarrow> if which_dev = 2 \<and> p_state (procs s p) = RUNNING then yield s else Done () s
                        | None \<Rightarrow> Done () s) (\<lambda>_ s.
                   Done () (s\<lparr>r_sepc := sepc, r_sstatus := sstatus\<rparr>))))"

definition trapinithart :: "'z sys_st_scheme \<Rightarrow> 'z sys_st_scheme" where
  "trapinithart s = s\<lparr>r_stvec := kernelvec_addr s\<rparr>"

text \<open>\<open>forkret\<close>, with \<open>minor(ROOTDEV) = 0\<close>.\<close>

definition forkret :: "'z sys_st_scheme \<Rightarrow> (u64 \<times> u64, 'z sys_st_scheme) outcome" where
  "forkret s =
     bnd (if first_ret s then fsinit (ROOTDEV AND 0xFFFF) (s\<lparr>first_ret := False\<rparr>) else Done () s) (\<lambda>_ s.
     usertrapret s)"

end
