(* ===== verification/Xv6_Console_Spec.thy ===== *)
theory Xv6_Console_Spec
  imports Xv6_File Xv6_Quiet
begin

text \<open>
  The console input as a line editor: the ring buffer with its three counters implements a sequence
  of characters of which a prefix has been committed for reading.
\<close>

interpretation cons_ring: ring_buffer INPUT_BUF
  by unfold_locales (simp_all add: INPUT_BUF_def)

text \<open>All characters typed and not read yet, and how many of them a reader may take.\<close>

definition cons_list :: "cons \<Rightarrow> u8 list" where
  "cons_list x = ring_list INPUT_BUF (c_buf x) (c_r x) (unat (c_e x - c_r x))"

definition cons_done :: "cons \<Rightarrow> nat" where
  "cons_done x = unat (c_w x - c_r x)"

definition cons_ok :: "cons \<Rightarrow> bool" where
  "cons_ok x \<longleftrightarrow> cons_done x \<le> length (cons_list x) \<and> length (cons_list x) \<le> INPUT_BUF"

text \<open>What a character does to the sequence.\<close>

definition line_edit :: "int \<Rightarrow> u8 list \<times> nat \<Rightarrow> u8 list \<times> nat" where
  "line_edit c = (\<lambda>(l, d).
     if c = 16 then (l, d)
     else if c = 21 then (take d l @ rev (dropWhile (\<lambda>b. b \<noteq> 10) (rev (drop d l))), d)
     else if c = 8 \<or> c = 127 then (if d < length l then butlast l else l, d)
     else if c \<noteq> 0 \<and> length l < INPUT_BUF
     then let c = (if c = 13 then 10 else c) in
          (l @ [of_int c], if c = 10 \<or> c = 4 \<or> length l + 1 = INPUT_BUF then length l + 1 else d)
     else (l, d))"

lemma cons_simps [simp]:
  "the_cons (consputc c s) = the_cons s" "the_cons (upd_cons f s) = f (the_cons s)" "the_cons (wakeup ch s) = the_cons s"
  by (simp_all add: consputc_def upd_cons_def) (subst wakeup_is_upd, simp)

lemma unat_diff_dec: "unat ((e :: u32) - r) = Suc n \<Longrightarrow> unat (e - 1 - r) = n"
  using unat_diff_pred [of e r n] by (simp add: algebra_simps)

text \<open>Erasing the last character that is not committed, and adding one.\<close>

lemma cons_diff:
  assumes "cons_ok x"
  shows "c_e x \<noteq> c_w x \<longleftrightarrow> cons_done x < length (cons_list x)"
proof -
  have "c_e x \<noteq> c_w x \<longleftrightarrow> unat (c_e x - c_r x) \<noteq> unat (c_w x - c_r x)"
    by (metis add_diff_cancel_right' diff_add_cancel word_unat_eq_iff)
  then show ?thesis using assms by (auto simp: cons_ok_def cons_done_def cons_list_def)
qed

lemma cons_pop:
  assumes "cons_ok x" and "c_e x \<noteq> c_w x"
  shows "cons_list x = cons_list (x\<lparr>c_e := c_e x - 1\<rparr>) @ [c_buf x (unat (c_e x - 1) mod INPUT_BUF)]"
    and "cons_done (x\<lparr>c_e := c_e x - 1\<rparr>) = cons_done x" and "cons_ok (x\<lparr>c_e := c_e x - 1\<rparr>)"
proof -
  have l: "cons_done x < length (cons_list x)" using cons_diff assms by simp
  then obtain n where n: "unat (c_e x - c_r x) = Suc n"
    by (cases "unat (c_e x - c_r x)") (auto simp: cons_list_def)
  note d = unat_diff_dec [OF n]
  have "c_r x + of_nat n = c_e x - 1"
    unfolding d [symmetric] by simp
  then show p: "cons_list x = cons_list (x\<lparr>c_e := c_e x - 1\<rparr>) @ [c_buf x (unat (c_e x - 1) mod INPUT_BUF)]"
    by (simp add: cons_list_def n d cons_ring.drop_last)
  show q: "cons_done (x\<lparr>c_e := c_e x - 1\<rparr>) = cons_done x" by (simp add: cons_done_def)
  have "length (cons_list x) = Suc (length (cons_list (x\<lparr>c_e := c_e x - 1\<rparr>)))" using p by simp
  then show "cons_ok (x\<lparr>c_e := c_e x - 1\<rparr>)" using l q assms(1) by (simp add: cons_ok_def)
qed

lemma cons_push:
  assumes "length (cons_list x) < INPUT_BUF" and "x' = x\<lparr>c_buf := (c_buf x)(unat (c_e x) mod INPUT_BUF := b), c_e := c_e x + 1\<rparr>"
  shows "cons_list x' = cons_list x @ [b]" and "cons_done x' = cons_done x"
    and "c_e x' = c_r x' + of_nat INPUT_BUF \<longleftrightarrow> length (cons_list x) + 1 = INPUT_BUF"
proof -
  let ?n = "unat (c_e x - c_r x)"
  have n: "?n < INPUT_BUF" using assms(1) by (simp add: cons_list_def)
  have d: "unat (c_e x + 1 - c_r x) = Suc ?n" using n by (intro unat_diff_Suc) (simp add: INPUT_BUF_def)
  have "c_r x + of_nat ?n = c_e x" by simp
  then show "cons_list x' = cons_list x @ [b]"
    using cons_ring.push [OF n, of "c_buf x" "c_r x" b] by (simp add: cons_list_def assms(2) d)
  show "cons_done x' = cons_done x" by (simp add: cons_done_def assms(2))
  have "c_e x + 1 = c_r x + of_nat INPUT_BUF \<longleftrightarrow> c_e x + 1 - c_r x = of_nat INPUT_BUF" by (auto simp: algebra_simps)
  also have "\<dots> \<longleftrightarrow> Suc ?n = INPUT_BUF" unfolding word_unat_eq_iff d by (simp add: INPUT_BUF_def)
  finally show "c_e x' = c_r x' + of_nat INPUT_BUF \<longleftrightarrow> length (cons_list x) + 1 = INPUT_BUF"
    by (simp add: assms(2) cons_list_def)
qed

text \<open>The loop that kills a line stops within its bound, at a newline or at the committed part.\<close>

lemma erase_line_spec:
  assumes "cons_ok (the_cons s)" and "length (cons_list (the_cons s)) = cons_done (the_cons s) + k"
  shows "cons_ok (the_cons (erase_line k s)) \<and> cons_done (the_cons (erase_line k s)) = cons_done (the_cons s)
     \<and> cons_list (the_cons (erase_line k s)) = (let l = cons_list (the_cons s); d = cons_done (the_cons s)
          in take d l @ rev (dropWhile (\<lambda>b. b \<noteq> 10) (rev (drop d l))))"
  using assms
proof (induction k arbitrary: s)
  case (Suc k)
  let ?x = "the_cons s" and ?y = "(the_cons s)\<lparr>c_e := c_e (the_cons s) - 1\<rparr>"
  have ne: "c_e ?x \<noteq> c_w ?x" using cons_diff [OF Suc.prems(1)] Suc.prems(2) by simp
  note pop = cons_pop [OF Suc.prems(1) ne]
  show ?case
  proof (cases "c_buf ?x (unat (c_e ?x - 1) mod INPUT_BUF) = 10")
    case True
    then have "rev (drop (cons_done ?x) (cons_list ?x)) = 10 # rev (drop (cons_done ?x) (cons_list ?y))"
      using pop(1) Suc.prems(2) by simp
    then have "take (cons_done ?x) (cons_list ?x) @ rev (dropWhile (\<lambda>b. b \<noteq> 10) (rev (drop (cons_done ?x) (cons_list ?x)))) = cons_list ?x"
      by (metis (mono_tags) append_take_drop_id dropWhile.simps(2) rev_rev_ident)
    then show ?thesis using True Suc.prems(1) by (simp add: Let_def)
  next
    case False
    let ?s = "consputc BACKSPACE (upd_cons (\<lambda>x. x\<lparr>c_e := c_e x - 1\<rparr>) s)"
    have "length (cons_list ?y) = cons_done ?y + k" using pop(1,2) Suc.prems(2) by simp
    with Suc.IH [of ?s] pop(2,3) False ne pop(1) Suc.prems(2) show ?thesis by (simp add: Let_def)
  qed
qed (auto simp: Let_def)

lemma printf_dump: "\<exists>out. printf (ascii ''%d %s %s'') [AInt a, AStr (Some b), AStr (Some c)] = Some out"
  by (simp add: ascii_def)

lemma procdump_cons: "\<exists>s'. procdump_print s = Done () s' \<and> the_cons s' = the_cons s"
proof -
  have nl: "kprintf ''\<newline>'' [] s = Done () (s\<lparr>uart := uart s @ [10]\<rparr>)" for s :: "'a file_st_scheme"
    by (simp add: kprintf_def ascii_def)
  have "\<exists>s'. each (\<lambda>(pid, st, nm) s.
       bnd (kprintf ''%d %s %s'' [AInt (of_int pid), AStr (Some (ascii st)), AStr (Some nm)] s) (\<lambda>_ s.
       kprintf ''\<newline>'' [] s)) ps s = Done () s' \<and> the_cons s' = the_cons s" for ps and s :: "'a file_st_scheme"
  proof (induction ps arbitrary: s)
    case (Cons q ps)
    obtain pid st nm where q: "q = (pid, st, nm)" by (cases q)
    obtain out where "printf (ascii ''%d %s %s'') [AInt (of_int pid), AStr (Some (ascii st)), AStr (Some nm)] = Some out"
      using printf_dump by blast
    then show ?case using Cons [of "s\<lparr>uart := (uart s @ out) @ [10]\<rparr>"] by (simp add: q kprintf_def [of "''%d %s %s''"] nl)
  qed simp
  then show ?thesis using nl [of s] unfolding procdump_print_def by fastforce
qed

text \<open>
  C20: The input handler \<open>consoleintr\<close> implements a line editor on the characters waiting in the
  buffer: a character is added while there is room, backspace and control-U take back only what is not committed,
  and a newline, control-D or a full buffer commits everything typed. It never runs over the buffer or the
  committed part, whatever the values of the wrapping counters.
\<close>

theorem consoleintr_edits:
  assumes "cons_ok (the_cons s)"
  shows "\<exists>s'. consoleintr c s = Done () s' \<and> cons_ok (the_cons s')
     \<and> (cons_list (the_cons s'), cons_done (the_cons s')) = line_edit c (cons_list (the_cons s), cons_done (the_cons s))"
proof -
  let ?x = "the_cons s"
  consider "c = 16" | "c = 21" | "c = 8 \<or> c = 127"
    | "c \<notin> {16, 21, 8, 127}" "c \<noteq> 0 \<and> length (cons_list ?x) < INPUT_BUF"
    | "c \<notin> {16, 21, 8, 127}" "\<not> (c \<noteq> 0 \<and> length (cons_list ?x) < INPUT_BUF)" by blast
  then show ?thesis
  proof cases
    case 1
    then show ?thesis using procdump_cons [of s] assms by (auto simp: consoleintr_def line_edit_def)
  next
    case 2
    have "unat (c_e ?x - c_w ?x) = length (cons_list ?x) - cons_done ?x"
    proof -
      have "c_e ?x - c_w ?x = (c_e ?x - c_r ?x) - (c_w ?x - c_r ?x)" by simp
      also have "unat \<dots> = unat (c_e ?x - c_r ?x) - unat (c_w ?x - c_r ?x)"
        using assms by (intro unat_sub) (simp add: cons_ok_def cons_done_def cons_list_def word_le_nat_alt)
      finally show ?thesis by (simp add: cons_list_def cons_done_def)
    qed
    moreover have "length (cons_list ?x) = cons_done ?x + (length (cons_list ?x) - cons_done ?x)"
      using assms by (simp add: cons_ok_def)
    ultimately show ?thesis
      using 2 erase_line_spec [OF assms] by (simp add: consoleintr_def line_edit_def Let_def)
  next
    case 3
    then show ?thesis using assms cons_pop [OF assms] cons_diff [OF assms] by (auto simp: consoleintr_def line_edit_def)
  next
    case 4
    let ?c = "if c = 13 then 10 else c"
    let ?y = "?x\<lparr>c_buf := (c_buf ?x)(unat (c_e ?x) mod INPUT_BUF := of_int ?c), c_e := c_e ?x + 1\<rparr>"
    have room: "unat (c_e ?x - c_r ?x) < INPUT_BUF" using 4(2) by (simp add: cons_list_def)
    note push = cons_push [OF _ refl, of ?x "of_int ?c"]
    have w: "cons_list (?y\<lparr>c_w := c_e ?y\<rparr>) = cons_list ?y" "cons_done (?y\<lparr>c_w := c_e ?y\<rparr>) = length (cons_list ?y)"
      by (simp_all add: cons_list_def cons_done_def)
    show ?thesis
      using 4 room push w assms by (auto simp: consoleintr_def line_edit_def Let_def cons_ok_def)
  next
    case 5
    then show ?thesis using assms by (auto simp: consoleintr_def line_edit_def cons_list_def)
  qed
qed

theorem consoleintr_edits_witness:
  "\<exists>s'. consoleintr 13 one_page = Done () s' \<and> cons_list (the_cons s') = [10] \<and> cons_done (the_cons s') = 1"
proof -
  have "cons_ok (the_cons one_page)" "cons_list (the_cons one_page) = []" "cons_done (the_cons one_page) = 0"
    by (simp_all add: one_page_def quiet_st_def cons_ok_def cons_list_def cons_done_def)
  then show ?thesis using consoleintr_edits [of one_page 13] by (auto simp: line_edit_def INPUT_BUF_def)
qed

end
