(* ===== verification/Xv6_Trap_Spec.thy ===== *)
theory Xv6_Trap_Spec
  imports Xv6_Trap Xv6_Console_Spec
begin

text \<open>Properties of the system-call layer: arguments, descriptors, sleeping, and unknown calls.\<close>

section \<open>Descriptors\<close>

lemma argraw_simp: "cur s = Some p \<Longrightarrow> n \<le> 5 \<Longrightarrow> argraw n s = Done (tf_get p (TF_a0 + of_nat n) s) s"
  by (simp add: argraw_def with_proc_def)

lemma argint_simp: "cur s = Some p \<Longrightarrow> n \<le> 5 \<Longrightarrow> argint n s = Done (sint (ucast (tf_get p (TF_a0 + of_nat n) s) :: u32)) s"
  by (simp add: argint_def argraw_simp)

text \<open>
  C28: Whatever a process puts in the register, \<open>argfd\<close> changes nothing, and it yields a file exactly
  when the register, read as a signed 32-bit number, is the index of an open descriptor: no index outside the table is used.
\<close>

theorem argfd_safe:
  assumes "cur s = Some p" and "n \<le> 5"
  shows "\<exists>r. argfd n s = Done r s \<and> (r = Some (fd, f) \<longleftrightarrow>
     fd < NOFILE \<and> p_ofile (procs s p) fd = Some f \<and> sint (ucast (tf_get p (TF_a0 + of_nat n) s) :: u32) = int fd)"
  using assms by (auto simp: argfd_def argint_simp with_proc_def)

theorem argfd_safe_witness: "argfd 0 one_page = Done None one_page"
proof -
  have c: "cur one_page = Some 0" "p_ofile (procs one_page 0) = (\<lambda>_. None)"
    by (simp_all add: one_page_def quiet_st_def boot_proc_def)
  obtain r where r: "argfd 0 one_page = Done r one_page" by (metis argfd_safe c(1) le0)
  have "r \<noteq> Some (fd, f)" for fd f
    using argfd_safe [OF c(1), of 0 fd f] r c(2) by auto
  then show ?thesis using r by (cases r) auto
qed

text \<open>
  C29: \<open>fdalloc\<close> gives out the lowest free descriptor and touches no other; it reports -1 exactly when
  all descriptors of the process are in use.
\<close>

theorem fdalloc_lowest:
  assumes "cur s = Some p"
  shows "case fdalloc f s of
     Done (Some fd) s' \<Rightarrow> fd < NOFILE \<and> p_ofile (procs s p) fd = None \<and> (\<forall>k < fd. p_ofile (procs s p) k \<noteq> None)
       \<and> p_ofile (procs s' p) = (p_ofile (procs s p))(fd := Some f)
   | Done None s' \<Rightarrow> s' = s \<and> (\<forall>k < NOFILE. p_ofile (procs s p) k \<noteq> None)
   | _ \<Rightarrow> False"
proof (cases "List.find (\<lambda>fd. p_ofile (procs s p) fd = None) [0..<NOFILE]")
  case None
  then have "\<forall>k < NOFILE. p_ofile (procs s p) k \<noteq> None" by (simp add: find_None_iff)
  then show ?thesis using None assms by (simp add: fdalloc_def with_proc_def)
next
  case (Some fd)
  from find_upt_Some [OF this] show ?thesis using Some assms by (simp add: fdalloc_def set_fd_def with_proc_def)
qed

theorem fdalloc_lowest_witness: "\<exists>s'. fdalloc 7 one_page = Done (Some 0) s' \<and> p_ofile (procs s' 0) 0 = Some 7"
proof -
  have c: "cur one_page = Some 0" "p_ofile (procs one_page 0) = (\<lambda>_. None)"
    by (simp_all add: one_page_def quiet_st_def boot_proc_def)
  have "0 < NOFILE" by (simp add: NOFILE_def)
  then show ?thesis
    using fdalloc_lowest [OF c(1), of 7] c(2) by (auto split: outcome.splits option.splits)
qed

section \<open>Sleeping\<close>

lemma clockintr_simps [simp]:
  "ticks (clockintr s) = ticks s + 1" "cur (clockintr s) = cur s"
  "p_killed (procs (clockintr s) i) = p_killed (procs s i)"
  by (simp_all add: clockintr_def procs_wakeup) (subst wakeup_is_upd, simp)

lemma clockintr_iter:
  "ticks ((clockintr ^^ m) s) = ticks s + of_nat m" "cur ((clockintr ^^ m) s) = cur s"
  "p_killed (procs ((clockintr ^^ m) s) i) = p_killed (procs s i)"
  by (induction m) simp_all

text \<open>A state for examples, with a tick counter about to wrap around.\<close>

definition quiet_sys :: sys_st where
  "quiet_sys = file_st.extend one_page \<lparr>ticks = 0xFFFFFFFF, first_ret = False, spins = boot_spin, r_sstatus = 0, r_scause = 8,
     r_stval = 0, r_sepc = 0, r_stvec = 0, r_satp = 0, r_tp = 0, r_sip = 0, kernelvec_addr = 0, usertrap_addr = 0,
     uservec_off = 0, uart_in = []\<rparr>"

lemma quiet_sys_simps:
  "cur quiet_sys = Some 0" "p_killed (procs quiet_sys 0) = 0" "ticks quiet_sys = 0xFFFFFFFF" "p_tf (procs quiet_sys 0) = 0"
  "mem quiet_sys 0 TF_a7 = 0" "uart quiet_sys = []"
  by (simp_all add: quiet_sys_def one_page_def quiet_st_def boot_proc_def example_user_def file_st.defs)

text \<open>
  C21: A process that asked to sleep for \<open>n\<close> ticks, looked at after \<open>m\<close> clock interrupts: before \<open>n\<close> of
  them it sleeps, and the next clock interrupt makes it runnable, so that it looks again; from then on the call
  returns 0. The tick counter may wrap around.
\<close>

theorem sys_sleep_wakes:
  assumes "cur s = Some p" and "p < NPROC" and "p_killed (procs s p) = 0" and "n < 2 ^ 31" and "m < 2 ^ 32"
    and "s1 = (clockintr ^^ m) s"
  shows "if m < n then \<exists>s2. sys_sleep_loop (ticks s) (int n) s1 = Block ChanTicks s2 \<and> p_state (procs s2 p) = SLEEPING
       \<and> p_state (procs (clockintr s2) p) = RUNNABLE
     else sys_sleep_loop (ticks s) (int n) s1 = Done 0 s1"
proof -
  note it = clockintr_iter [of m s]
  have "(of_nat m :: u32) < of_nat n \<longleftrightarrow> m < n"
    using assms(4,5) by (simp add: word_less_nat_alt unat_of_nat)
  then have lt: "ticks s1 - ticks s < of_int (int n) \<longleftrightarrow> m < n" using it(1) assms(6) by simp
  have c: "cur s1 = Some p" "p_killed (procs s1 p) = 0" using it(2,3) assms(1,3,6) by simp_all
  show ?thesis
    using lt c assms(2) by (auto simp: sys_sleep_loop_def with_proc_def sleep_on_def clockintr_def procs_wakeup)
qed

theorem sys_sleep_wakes_witness:
  "\<exists>s2. sys_sleep_loop 0xFFFFFFFF 2 (clockintr quiet_sys) = Block ChanTicks s2 \<and> p_state (procs (clockintr s2) 0) = RUNNABLE"
  using sys_sleep_wakes [of quiet_sys 0 2 1 "clockintr quiet_sys"] by (auto simp: quiet_sys_simps NPROC_def)

section \<open>Unknown system calls\<close>

lemma printf_unknown: "\<exists>out. printf (ascii ''%d %s: unknown sys call %d\<newline>'') [AInt a, AStr (Some b), AInt c] = Some out"
  by (simp add: ascii_def)

text \<open>
  A system call number outside 1 to 22 makes \<open>syscall\<close> print a message and put -1 into the register \<open>a0\<close> of the
  process, which goes on; the process table and every other word of memory are unchanged.
\<close>

lemma syscall_unknown:
  fixes s :: "'z sys_st_scheme"
  assumes "cur s = Some p" and "num = sint (ucast (tf_get p TF_a7 s) :: u32)" and "num < 1 \<or> 22 < num"
  shows "\<exists>s' out. syscall s = Done True s' \<and> procs s' = procs s \<and> uart s' = uart s @ out
     \<and> mem s' = (mem s)(p_tf (procs s p) := (mem s (p_tf (procs s p)))(TF_a0 := -1))"
proof -
  obtain out where out: "printf (ascii ''%d %s: unknown sys call %d\<newline>'')
      [AInt (of_int (p_pid (procs s p))), AStr (Some (cstr 16 (p_name (procs s p)))), AInt (of_int num)] = Some out"
    using printf_unknown by blast
  have "num \<noteq> 2" "syscalls num = (None :: ('z sys_st_scheme \<Rightarrow> _) option)" using assms(3) by (auto simp: syscalls_def)
  then have "syscall s = Done True (tf_set p TF_a0 (-1) (s\<lparr>uart := uart s @ out\<rparr>))"
    using assms(1) out unfolding assms(2) by (simp add: syscall_def with_proc_def kprintf_def Let_def)
  then show ?thesis by (simp add: tf_set_def store_pte_def)
qed

end
