(* ===== verification/Xv6_Fork_Spec.thy ===== *)
theory Xv6_Fork_Spec
  imports Xv6_Sys Xv6_Quiet
begin

text \<open>What \<open>fork\<close> makes: a child that is a copy of its parent.\<close>

lemma mem_only_files:
  fixes s s0 :: "'z file_st_scheme"
  assumes "mem_only s0 s"
  shows "files s = files s0"
  using assms [unfolded mem_only_def, THEN arg_cong, of files] by simp

lemma upd_simps [simp]:
  "files (upd_proc i f s) = files s" "mem (upd_inode i g s) = mem s" "procs (upd_inode i g s) = procs s"
  "files (upd_inode i g s) = files s"
  by (simp_all add: upd_proc_def upd_inode_def)

lemma allocproc_Some:
  fixes s :: "'z file_st_scheme"
  assumes "allocproc s = Done (Some np) s1"
  shows "np < NPROC \<and> p_state (procs s np) = UNUSED \<and> files s1 = files s \<and> cur s1 = cur s
     \<and> p_ofile (procs s1 np) = p_ofile (procs s np) \<and> (\<forall>i. i \<noteq> np \<longrightarrow> procs s1 i = procs s i)"
proof -
  obtain i where i: "find_unused s = Some i" "allocproc_found i s = Done (Some np) s1"
    using assms by (auto simp: allocproc_def split: option.splits)
  let ?s = "upd_proc i (\<lambda>p. p\<lparr>p_pid := nextpid s\<rparr>) (s\<lparr>nextpid := nextpid s + 1\<rparr>)"
  obtain tf sa where a: "kalloc ?s = Done tf sa" using i(2) by (auto simp: allocproc_found_def allocpid_def bnd_eq_Done_iff)
  let ?sa = "upd_proc i (\<lambda>p. p\<lparr>p_tf := tf\<rparr>) sa"
  obtain pt sb where b: "proc_pagetable i ?sa = Done pt sb" "np = i"
      "s1 = upd_proc i (\<lambda>p. p\<lparr>p_context := \<lparr>ctx_ra = forkret_addr sb, ctx_sp = p_kstack p + PGSIZE, ctx_s = replicate 12 0\<rparr>\<rparr>)
         (upd_proc i (\<lambda>p. p\<lparr>p_pagetable := pt\<rparr>) sb)"
    using i(2) a by (auto simp: allocproc_found_def allocpid_def bnd_eq_Done_iff Let_def split: if_splits)
  have ma: "mem_only ?s sa" using keepsD [OF mem_only_kalloc a] by simp
  have mb: "mem_only ?sa sb" using keepsD [OF mem_only_proc_pagetable b(1)] by simp
  have "np < NPROC" "p_state (procs s np) = UNUSED" using i(1) b(2) by (auto simp: find_unused_def dest: find_upt_Some)
  then show ?thesis
    using b(2,3) mem_only_proc_fields [OF ma] mem_only_proc_fields [OF mb] mem_only_files [OF ma] mem_only_files [OF mb]
    by simp
qed

text \<open>The loop over the open files.\<close>

lemma fork_files:
  assumes "each (fork_file p np) is s = Done () s'" and "p \<noteq> np" and "distinct is"
  shows "mem s' = mem s \<and> procs s' = (procs s)(np := (procs s np)\<lparr>p_ofile := (\<lambda>i. if i \<in> set is \<and> p_ofile (procs s p) i \<noteq> None
           then p_ofile (procs s p) i else p_ofile (procs s np) i)\<rparr>)
     \<and> (\<forall>f. f_ref (files s' f) = f_ref (files s f) + int (length (filter (\<lambda>i. p_ofile (procs s p) i = Some f) is)))"
  using assms
proof (induction "is" arbitrary: s)
  case Nil
  have "(procs s np)\<lparr>p_ofile := (\<lambda>i. p_ofile (procs s np) i)\<rparr> = procs s np" by (rule proc.equality) simp_all
  then show ?case using Nil.prems(1) by (simp add: fun_upd_idem)
next
  case (Cons i "is")
  obtain s1 where s1: "fork_file p np i s = Done () s1" "each (fork_file p np) is s1 = Done () s'"
    using Cons.prems(1) by (auto simp: bnd_eq_Done_iff)
  have np: "np \<noteq> p" using Cons.prems(2) by simp
  show ?case
  proof (cases "p_ofile (procs s p) i")
    case None
    then have "s1 = s" using s1(1) by (simp add: fork_file_def)
    then show ?thesis using Cons.IH [OF s1(2)] Cons.prems(2,3) None by (auto simp: fun_eq_iff)
  next
    case (Some f)
    then have e: "s1 = upd_proc np (\<lambda>x. x\<lparr>p_ofile := (p_ofile x)(i := Some f)\<rparr>) (upd_file f (\<lambda>x. x\<lparr>f_ref := f_ref x + 1\<rparr>) s)"
      using s1(1) by (auto simp: fork_file_def filedup_def split: if_splits)
    then have e1: "procs s1 = (procs s)(np := (procs s np)\<lparr>p_ofile := (p_ofile (procs s np))(i := Some f)\<rparr>)" "mem s1 = mem s"
      "\<And>g. f_ref (files s1 g) = f_ref (files s g) + (if g = f then 1 else 0)"
      by (simp_all add: upd_file_def)
    note ih = Cons.IH [OF s1(2) Cons.prems(2)]
    have "procs s' = (procs s)(np := (procs s np)\<lparr>p_ofile := (\<lambda>j. if j \<in> set (i # is) \<and> p_ofile (procs s p) j \<noteq> None
           then p_ofile (procs s p) j else p_ofile (procs s np) j)\<rparr>)"
      using ih Cons.prems(3) np Some by (auto simp: e1(1) fun_eq_iff)
    moreover have "mem s' = mem s" using ih Cons.prems(3) e1(2) by simp
    moreover have "f_ref (files s' g) = f_ref (files s g) + int (length (filter (\<lambda>j. p_ofile (procs s p) j = Some g) (i # is)))" for g
      using ih Cons.prems(3) np Some by (auto simp: e1(1,3))
    ultimately show ?thesis by blast
  qed
qed

lemma fork_files_return:
  assumes "p \<noteq> np" and "\<And>i f. p_ofile (procs s p) i = Some f \<Longrightarrow> 1 \<le> f_ref (files s f)"
  shows "\<exists>s'. each (fork_file p np) is s = Done () s'"
  using assms
proof (induction "is" arbitrary: s)
  case (Cons i "is")
  show ?case
  proof (cases "p_ofile (procs s p) i")
    case None
    then show ?thesis using Cons.IH [OF Cons.prems] by (simp add: fork_file_def)
  next
    case (Some f)
    let ?s = "upd_proc np (\<lambda>x. x\<lparr>p_ofile := (p_ofile x)(i := Some f)\<rparr>) (upd_file f (\<lambda>x. x\<lparr>f_ref := f_ref x + 1\<rparr>) s)"
    have "fork_file p np i s = Done () ?s"
      using Some Cons.prems(2) [OF Some] by (simp add: fork_file_def filedup_def)
    moreover have "1 \<le> f_ref (files ?s g)" if g: "p_ofile (procs ?s p) j = Some g" for j g
      using g Cons.prems(1) Cons.prems(2) [of j g] by (auto simp: upd_file_def)
    ultimately show ?thesis using Cons.IH [OF Cons.prems(1), of ?s] by simp
  qed
qed simp

lemma tf_set_simps [simp]:
  "procs (tf_set p i v s) = procs s" "mem (tf_set p i v s) = (mem s)(p_tf (procs s p) := (mem s (p_tf (procs s p)))(i := v))"
  "files (tf_set p i v s) = files s"
  by (simp_all add: tf_set_def store_pte_def)

lemma copy_tf_simps [simp]:
  "procs (copy_tf p np s) = procs s" "files (copy_tf p np s) = files s"
  "mem (copy_tf p np s) = (mem s)(p_tf (procs s np) := (\<lambda>i. if i < 36 then mem s (p_tf (procs s p)) i else mem s (p_tf (procs s np)) i))"
  by (simp_all add: copy_tf_def)


text \<open>A running process with one open file, memory for a child, and two free entries of the table.\<close>

definition fork_demo :: file_st where
  "fork_demo = (quiet_st (mem boot_table) boot_proc)\<lparr>freelist := 0x1000,
     procs := (\<lambda>_. boot_proc)(0 := boot_proc\<lparr>p_state := RUNNING, p_pid := 1, p_tf := 0x8000, p_ofile := (\<lambda>_. None)(3 := Some 7), p_cwd := Some 0\<rparr>),
     nextpid := 2, files := (\<lambda>_. closed_file)(7 := closed_file\<lparr>f_ref := 1\<rparr>)\<rparr>"

lemma fork_demo_simps [simp]:
  "cur fork_demo = Some 0"
  "procs fork_demo i = (if i = 0 then boot_proc\<lparr>p_state := RUNNING, p_pid := 1, p_tf := 0x8000, p_ofile := (\<lambda>_. None)(3 := Some 7), p_cwd := Some 0\<rparr>
     else boot_proc)"
  "f_ref (files fork_demo 7) = 1"
  by (simp_all add: fork_demo_def quiet_st_def)

lemma fork_demo_returns: "\<exists>s'. fork fork_demo = Done 2 s'"
proof -
  have "case allocproc fork_demo of Done r s \<Rightarrow> r = Some 1 \<and> p_pid (procs s 1) = 2 | _ \<Rightarrow> False" by code_simp
  then obtain s1 where s1: "allocproc fork_demo = Done (Some 1) s1" "p_pid (procs s1 1) = 2"
    by (auto split: outcome.splits)
  note al = allocproc_Some [OF s1(1)]
  then have p0: "procs s1 0 = procs fork_demo 0" "files s1 = files fork_demo" by simp_all
  let ?s3 = "tf_set 1 TF_a0 0 (copy_tf 0 1 (upd_proc 1 (\<lambda>x. x\<lparr>p_parent := Some 0\<rparr>) (upd_proc 1 (\<lambda>x. x\<lparr>p_sz := p_sz (procs s1 0)\<rparr>) s1)))"
  have u: "uvmcopy a b (p_sz (procs s1 0)) s1 = Done 0 s1" for a b
    by (simp add: uvmcopy_def uvmcopy_from.simps p0 boot_proc_def)
  have "1 \<le> f_ref (files ?s3 f)" if "p_ofile (procs ?s3 0) i = Some f" for i f
    using that by (auto simp: p0 split: if_splits)
  then obtain s4 where s4: "each (fork_file 0 1) [0..<NOFILE] ?s3 = Done () s4"
    using fork_files_return [of 0 1 ?s3 "[0..<NOFILE]"] by (meson zero_neq_one)
  note ff = fork_files [OF s4]
  have "p_cwd (procs s4 0) = Some 0" "p_pid (procs s4 1) = 2" using ff by (simp_all add: p0 s1(2) [simplified])
  then show ?thesis
    by (simp add: fork_def with_proc_def s1(1) [simplified] u s4 [simplified] Let_def idup_def del: upt_Suc)
qed


end
