(* ===== verification/Xv6_Grep.thy ===== *)
theory Xv6_Grep
  imports Xv6_Prelude
begin

text \<open>
  The matcher of \<open>user/grep.c\<close>, and the language of its patterns. Patterns and texts are strings
  without their NUL.
\<close>

section \<open>The matcher\<close>

text \<open>\<open>matchhere\<close> and \<open>matchstar\<close>: \<open>^\<close> is 94, \<open>*\<close> is 42, \<open>$\<close> is 36 and \<open>.\<close> is 46.\<close>

function matchhere :: "u8 list \<Rightarrow> u8 list \<Rightarrow> bool"
and matchstar :: "u8 \<Rightarrow> u8 list \<Rightarrow> u8 list \<Rightarrow> bool" where
  "matchhere re ts =
     (if re = [] then True
      else if length re \<ge> 2 \<and> re ! 1 = 42 then matchstar (hd re) (drop 2 re) ts
      else if re = [36] then ts = []
      else if ts \<noteq> [] \<and> (hd re = 46 \<or> hd re = hd ts) then matchhere (tl re) (tl ts)
      else False)"
| "matchstar c re ts =
     (if matchhere re ts then True
      else if ts \<noteq> [] \<and> (hd ts = c \<or> c = 46) then matchstar c re (tl ts)
      else False)"
  by pat_completeness auto

termination
  by (relation "measure (\<lambda>x. case x of Inl (re, ts) \<Rightarrow> 2 * length re + 2 * length ts | Inr (c, re, ts) \<Rightarrow> 2 * length re + 2 * length ts + 1)")
    (auto simp: neq_Nil_conv)

declare matchhere.simps [simp del] matchstar.simps [simp del]

text \<open>The loop of \<open>match\<close> over the suffixes of the text.\<close>

fun match_from :: "u8 list \<Rightarrow> u8 list \<Rightarrow> bool" where
  "match_from re [] = matchhere re []"
| "match_from re (c # ts) = (matchhere re (c # ts) \<or> match_from re ts)"

definition match :: "u8 list \<Rightarrow> u8 list \<Rightarrow> bool" where
  "match re ts = (if re \<noteq> [] \<and> hd re = 94 then matchhere (tl re) ts else match_from re ts)"

section \<open>The language of a pattern\<close>

text \<open>
  The items of a pattern: one character, any number of a character, or the end of the text. A dot
  stands for every character.
\<close>

datatype item = One u8 | Star u8 | End

fun items :: "u8 list \<Rightarrow> item list" where
  "items [] = []"
| "items [c] = (if c = 36 then [End] else [One c])"
| "items (c # d # re) = (if d = 42 then Star c # items re else One c # items (d # re))"

definition fits :: "u8 \<Rightarrow> u8 \<Rightarrow> bool" where
  "fits c x \<longleftrightarrow> c = 46 \<or> c = x"

text \<open>The texts that start with a match for the items.\<close>

inductive prefix_match :: "item list \<Rightarrow> u8 list \<Rightarrow> bool" where
  stop: "prefix_match [] ts"
| one: "fits c x \<Longrightarrow> prefix_match is ts \<Longrightarrow> prefix_match (One c # is) (x # ts)"
| star: "\<forall>x \<in> set xs. fits c x \<Longrightarrow> prefix_match is ts \<Longrightarrow> prefix_match (Star c # is) (xs @ ts)"
| endt: "prefix_match is [] \<Longrightarrow> prefix_match (End # is) []"

inductive_cases prefix_matchE: "prefix_match (i # is) ts"

inductive_simps prefix_match_simps [simp]: "prefix_match [] ts" "prefix_match (One c # is) ts" "prefix_match (End # is) ts"

lemma prefix_match_Star:
  "prefix_match (Star c # is) ts \<longleftrightarrow>
     prefix_match is ts \<or> (\<exists>x ts'. ts = x # ts' \<and> fits c x \<and> prefix_match (Star c # is) ts')"
proof
  assume "prefix_match (Star c # is) ts"
  then obtain xs ts' where t: "ts = xs @ ts'" "\<forall>x \<in> set xs. fits c x" "prefix_match is ts'"
    by (auto elim: prefix_matchE)
  show "prefix_match is ts \<or> (\<exists>x ts'. ts = x # ts' \<and> fits c x \<and> prefix_match (Star c # is) ts')"
  proof (cases xs)
    case Nil
    then show ?thesis using t by simp
  next
    case (Cons x xs')
    then have "prefix_match (Star c # is) (xs' @ ts')" using t by (intro star) auto
    then show ?thesis using t Cons by auto
  qed
next
  assume "prefix_match is ts \<or> (\<exists>x ts'. ts = x # ts' \<and> fits c x \<and> prefix_match (Star c # is) ts')"
  then show "prefix_match (Star c # is) ts"
  proof
    assume "prefix_match is ts"
    then show ?thesis using star [of "[]"] by simp
  next
    assume "\<exists>x ts'. ts = x # ts' \<and> fits c x \<and> prefix_match (Star c # is) ts'"
    then obtain x ts' where t: "ts = x # ts'" "fits c x" "prefix_match (Star c # is) ts'" by blast
    then obtain xs r where "ts' = xs @ r" "\<forall>x \<in> set xs. fits c x" "prefix_match is r"
      by (auto elim: prefix_matchE)
    then show ?thesis using t(1,2) star [of "x # xs" c "is" r] by simp
  qed
qed

lemma matchhere_star_correct:
  "matchhere re ts \<longleftrightarrow> prefix_match (items re) ts"
  "matchstar c re ts \<longleftrightarrow> prefix_match (Star c # items re) ts"
proof (induction re ts and c re ts rule: matchhere_matchstar.induct)
  case (1 re ts)
  note unf = matchhere.simps [of re ts]
  consider "re = []" | a where "re = [a]" | a b r where "re = a # b # r" by (metis items.cases)
  then show ?case
  proof cases
    case 1
    then show ?thesis using unf by simp
  next
    case 2
    then show ?thesis using unf matchhere.simps [of "[]" "tl ts"] by (auto simp: fits_def neq_Nil_conv)
  next
    case 3
    then show ?thesis using 1 unf by (auto simp: fits_def neq_Nil_conv)
  qed
next
  case (2 c re ts)
  then show ?case
    by (subst matchstar.simps, subst prefix_match_Star) (auto simp: fits_def neq_Nil_conv)
qed

lemma match_from_correct: "match_from re ts \<longleftrightarrow> (\<exists>pre suf. ts = pre @ suf \<and> prefix_match (items re) suf)"
proof (induction ts)
  case (Cons x ts)
  then show ?case by (auto simp: matchhere_star_correct Cons_eq_append_conv)
qed (simp add: matchhere_star_correct)

text \<open>
  C23: \<open>match\<close> decides the language of its patterns: with a leading \<open>^\<close> the rest of the pattern must match
  at the start of the text, otherwise somewhere in it.
\<close>

theorem match_correct:
  "match re ts \<longleftrightarrow> (if re \<noteq> [] \<and> hd re = 94 then prefix_match (items (tl re)) ts
     else \<exists>pre suf. ts = pre @ suf \<and> prefix_match (items re) suf)"
  by (simp add: match_def match_from_correct matchhere_star_correct)

end
