(* ===== verification/Xv6_Sh.thy ===== *)
theory Xv6_Sh
  imports Xv6_Printf
begin

text \<open>
  The command parser of the shell, \<open>user/sh.c\<close>. A position in the line is the rest of the line; the
  pointers \<open>q\<close> and \<open>eq\<close> to a token, which \<open>nulterminate\<close> turns into strings, are the token. The C functions
  recurse without a bound; the model has fuel, and \<open>parsecmd\<close> provides enough of it for the line.
\<close>

section \<open>Tokens\<close>

definition whitespace :: "u8 list" where "whitespace = [32, 9, 13, 10, 11]"
definition symbols :: "u8 list" where "symbols = ascii ''<|>&;()''"

definition skip_ws :: "u8 list \<Rightarrow> u8 list" where
  "skip_ws s = dropWhile (\<lambda>c. c \<in> set whitespace) s"

text \<open>\<open>gettoken\<close>: the kind of token, the token and the line after it.\<close>

definition gettoken :: "u8 list \<Rightarrow> u8 \<times> u8 list \<times> u8 list" where
  "gettoken s =
     (case skip_ws s of
        [] \<Rightarrow> (0, [], [])
      | c # r \<Rightarrow>
        if c \<in> set (ascii ''|();&<'') then (c, [c], skip_ws r)
        else if [c] = ascii ''>''
        then if r \<noteq> [] \<and> [hd r] = ascii ''>'' then (hd (ascii ''+''), [c, hd r], skip_ws (tl r)) else (c, [c], skip_ws r)
        else let word = (\<lambda>c. c \<notin> set whitespace \<and> c \<notin> set symbols)
             in (hd (ascii ''a''), takeWhile word (c # r), skip_ws (dropWhile word (c # r))))"

definition peek :: "u8 list \<Rightarrow> string \<Rightarrow> bool \<times> u8 list" where
  "peek s toks = (let s = skip_ws s in (s \<noteq> [] \<and> hd s \<in> set (ascii toks), s))"

section \<open>Commands\<close>

text \<open>\<open>struct cmd\<close> and its variants; a redirection has its file, open mode and descriptor.\<close>

datatype cmd = Execcmd "u8 list list" | Redircmd cmd "u8 list" u32 nat | Pipecmd cmd cmd | Listcmd cmd cmd | Backcmd cmd

definition MAXARGS :: nat where "MAXARGS = 10"

text \<open>The result of a parser: a value and the rest of the line, a syntax error, or no more fuel.\<close>

datatype 'a parsed = Parsed 'a "u8 list" | Syntax string | Deep

fun pbind :: "'a parsed \<Rightarrow> ('a \<Rightarrow> u8 list \<Rightarrow> 'b parsed) \<Rightarrow> 'b parsed" where
  "pbind (Parsed a s) f = f a s"
| "pbind (Syntax m) f = Syntax m"
| "pbind Deep f = Deep"

text \<open>\<open>parseredirs\<close>: the redirections in the order in which they wrap the command.\<close>

type_synonym redir = "u8 list \<times> u32 \<times> nat"

definition redir_of :: "u8 \<Rightarrow> u8 list \<Rightarrow> redir" where
  "redir_of tok q = (if [tok] = ascii ''<'' then (q, 0, 0) else (q, 0x201, 1))"

fun parseredirs :: "nat \<Rightarrow> redir list \<Rightarrow> u8 list \<Rightarrow> redir list parsed" where
  "parseredirs 0 rs s = Deep"
| "parseredirs (Suc n) rs s =
     (case peek s ''<>'' of (more, s) \<Rightarrow>
      if \<not> more then Parsed rs s
      else case gettoken s of (tok, _, s) \<Rightarrow>
           case gettoken s of (kind, q, s) \<Rightarrow>
           if [kind] \<noteq> ascii ''a'' then Syntax ''missing file for redirection''
           else parseredirs n (rs @ [redir_of tok q]) s)"

definition redirect :: "cmd \<Rightarrow> redir list \<Rightarrow> cmd" where
  "redirect c rs = foldl (\<lambda>c (q, mode, fd). Redircmd c q mode fd) c rs"

text \<open>
  The loop of \<open>parseexec\<close>: the arguments and the redirections so far. The code adds arguments to the
  command inside the redirections that already wrap it.
\<close>

fun parseargs :: "nat \<Rightarrow> u8 list list \<Rightarrow> redir list \<Rightarrow> u8 list \<Rightarrow> cmd parsed" where
  "parseargs 0 argv rs s = Deep"
| "parseargs (Suc n) argv rs s =
     (case peek s ''|)&;'' of (stop, s) \<Rightarrow>
      if stop then Parsed (redirect (Execcmd argv) rs) s
      else case gettoken s of (tok, q, s) \<Rightarrow>
           if tok = 0 then Parsed (redirect (Execcmd argv) rs) s
           else if [tok] \<noteq> ascii ''a'' then Syntax ''syntax''
           else if length argv + 1 \<ge> MAXARGS then Syntax ''too many args''
           else pbind (parseredirs n rs s) (\<lambda>rs s. parseargs n (argv @ [q]) rs s))"

text \<open>The loop of \<open>parseline\<close> over \<open>&\<close>.\<close>

fun parsebacks :: "nat \<Rightarrow> cmd \<Rightarrow> u8 list \<Rightarrow> cmd parsed" where
  "parsebacks 0 c s = Deep"
| "parsebacks (Suc n) c s = (case peek s ''&'' of (more, s) \<Rightarrow>
     if \<not> more then Parsed c s else case gettoken s of (_, _, s) \<Rightarrow> parsebacks n (Backcmd c) s)"

fun parseline :: "nat \<Rightarrow> u8 list \<Rightarrow> cmd parsed"
and parsepipe :: "nat \<Rightarrow> u8 list \<Rightarrow> cmd parsed"
and parseexec :: "nat \<Rightarrow> u8 list \<Rightarrow> cmd parsed"
and parseblock :: "nat \<Rightarrow> u8 list \<Rightarrow> cmd parsed" where
  "parseline 0 s = Deep"
| "parseline (Suc n) s =
     pbind (parsepipe n s) (\<lambda>c s.
     pbind (parsebacks n c s) (\<lambda>c s.
     case peek s '';'' of (more, s) \<Rightarrow>
     if \<not> more then Parsed c s
     else case gettoken s of (_, _, s) \<Rightarrow> pbind (parseline n s) (\<lambda>d s. Parsed (Listcmd c d) s)))"
| "parsepipe 0 s = Deep"
| "parsepipe (Suc n) s =
     pbind (parseexec n s) (\<lambda>c s.
     case peek s ''|'' of (more, s) \<Rightarrow>
     if \<not> more then Parsed c s
     else case gettoken s of (_, _, s) \<Rightarrow> pbind (parsepipe n s) (\<lambda>d s. Parsed (Pipecmd c d) s))"
| "parseexec 0 s = Deep"
| "parseexec (Suc n) s =
     (case peek s ''('' of (block, s) \<Rightarrow>
      if block then parseblock n s
      else pbind (parseredirs n [] s) (\<lambda>rs s. parseargs n [] rs s))"
| "parseblock 0 s = Deep"
| "parseblock (Suc n) s =
     (case peek s ''('' of (block, s) \<Rightarrow>
      if \<not> block then Syntax ''parseblock''
      else case gettoken s of (_, _, s) \<Rightarrow>
           pbind (parseline n s) (\<lambda>c s.
           case peek s '')'' of (closed, s) \<Rightarrow>
           if \<not> closed then Syntax ''syntax - missing )''
           else case gettoken s of (_, _, s) \<Rightarrow>
                pbind (parseredirs n [] s) (\<lambda>rs s. Parsed (redirect c rs) s)))"

definition parsecmd :: "u8 list \<Rightarrow> cmd parsed" where
  "parsecmd s = pbind (parseline (4 * length s + 5) s) (\<lambda>c s.
     case peek s '''' of (_, s) \<Rightarrow> if s \<noteq> [] then Syntax ''syntax'' else Parsed c s)"

section \<open>Parsing ends\<close>

text \<open>A parser that does not run out of fuel and leaves no more than \<open>k\<close> characters.\<close>

definition ends :: "nat \<Rightarrow> 'a parsed \<Rightarrow> bool" where
  "ends k r \<longleftrightarrow> (case r of Parsed _ s \<Rightarrow> length s \<le> k | Syntax _ \<Rightarrow> True | Deep \<Rightarrow> False)"

lemma ends_simps [simp]: "ends k (Parsed a s) \<longleftrightarrow> length s \<le> k" "ends k (Syntax m)" "\<not> ends k Deep"
  by (simp_all add: ends_def)

lemma ends_pbind: "ends k r \<Longrightarrow> (\<And>a s. length s \<le> k \<Longrightarrow> ends j (f a s)) \<Longrightarrow> ends j (pbind r f)"
  by (cases r) auto

lemma ends_mono: "ends k r \<Longrightarrow> k \<le> j \<Longrightarrow> ends j r"
  by (cases r) auto

lemma skip_ws_le: "length (skip_ws s) \<le> length s"
  by (simp add: skip_ws_def length_dropWhile_le)

lemma skip_ws_hd: "skip_ws s = c # r \<Longrightarrow> c \<notin> set whitespace"
  unfolding skip_ws_def by (metis dropWhile_eq_Cons_conv)

lemma peek_le: "peek s toks = (b, s') \<Longrightarrow> length s' \<le> length s"
  using skip_ws_le [of s] by (auto simp: peek_def Let_def)

lemma peek_skip: "peek s toks = (b, s') \<Longrightarrow> skip_ws s' = s'"
  by (auto simp: peek_def Let_def skip_ws_def)

lemma peek_True: "peek s toks = (True, s') \<Longrightarrow> s' \<noteq> []"
  by (auto simp: peek_def Let_def)

text \<open>\<open>gettoken\<close> consumes something unless it is at the end of the line.\<close>

lemma gettoken_le: "gettoken s = (tok, q, s') \<Longrightarrow> length s' \<le> length s"
  and gettoken_less: "gettoken s = (tok, q, s') \<Longrightarrow> skip_ws s \<noteq> [] \<Longrightarrow> length s' < length s"
  and gettoken_0: "gettoken s = (tok, q, s') \<Longrightarrow> tok \<noteq> 0 \<Longrightarrow> skip_ws s \<noteq> []"
proof -
  have less: "length s' < length s" if t: "gettoken s = (tok, q, s')" and ne: "skip_ws s \<noteq> []"
  proof -
    obtain c r where cr: "skip_ws s = c # r" using ne by (cases "skip_ws s") auto
    then have s: "Suc (length r) \<le> length s" using skip_ws_le [of s] by simp
    have r: "length (skip_ws r) \<le> length r" "length (skip_ws (tl r)) \<le> length r"
      using skip_ws_le [of r] skip_ws_le [of "tl r"] by simp_all
    let ?w = "\<lambda>c. c \<notin> set whitespace \<and> c \<notin> set symbols"
    have "length (skip_ws (dropWhile ?w r)) \<le> length r"
      using skip_ws_le [of "dropWhile ?w r"] length_dropWhile_le [of ?w r] by linarith
    moreover have "c \<notin> set symbols \<or> c \<in> set (ascii ''|();&<'') \<or> [c] = ascii ''>''"
      by (auto simp: symbols_def ascii_def)
    ultimately show ?thesis
      using t s r skip_ws_hd [OF cr] by (auto simp: gettoken_def cr Let_def split: if_splits)
  qed
  then show "gettoken s = (tok, q, s') \<Longrightarrow> skip_ws s \<noteq> [] \<Longrightarrow> length s' < length s" .
  show "gettoken s = (tok, q, s') \<Longrightarrow> length s' \<le> length s"
    using less by (cases "skip_ws s = []") (auto simp: gettoken_def)
  show "gettoken s = (tok, q, s') \<Longrightarrow> tok \<noteq> 0 \<Longrightarrow> skip_ws s \<noteq> []" by (auto simp: gettoken_def)
qed

text \<open>A token taken after a successful \<open>peek\<close>.\<close>

lemma peek_gettoken: "peek s toks = (True, s1) \<Longrightarrow> gettoken s1 = (tok, q, s2) \<Longrightarrow> length s2 < length s"
  using peek_le [of s toks True s1] peek_skip [of s toks True s1] peek_True [of s toks s1] gettoken_less [of s1 tok q s2]
  by fastforce

lemma parseredirs_ends: "length s < n \<Longrightarrow> ends (length s) (parseredirs n rs s)"
proof (induction n arbitrary: rs s)
  case (Suc n)
  obtain more s1 where p: "peek s ''<>'' = (more, s1)" by fastforce
  obtain tok q1 s2 where t: "gettoken s1 = (tok, q1, s2)" by (cases "gettoken s1")
  obtain kind q s3 where u: "gettoken s2 = (kind, q, s3)" by (cases "gettoken s2")
  have "length s1 \<le> length s" "length s3 \<le> length s2" using peek_le [OF p] gettoken_le [OF u] by auto
  moreover have "length s2 < length s" if more using peek_gettoken [of s _ s1] p t that by simp
  ultimately show ?case using Suc p t u by (auto intro: ends_mono [OF Suc.IH])
qed simp

lemma parseargs_ends: "length s < n \<Longrightarrow> ends (length s) (parseargs n argv rs s)"
proof (induction n arbitrary: argv rs s)
  case (Suc n)
  obtain stop s1 where p: "peek s ''|)&;'' = (stop, s1)" by fastforce
  obtain tok q s2 where t: "gettoken s1 = (tok, q, s2)" by (cases "gettoken s1")
  have l: "length s1 \<le> length s" "length s2 \<le> length s1" using peek_le [OF p] gettoken_le [OF t] by auto
  have "ends (length s) (pbind (parseredirs n rs s2) (\<lambda>rs s. parseargs n (argv @ [q]) rs s))" if "tok \<noteq> 0"
  proof -
    have "length s2 < length s1" using gettoken_less [OF t] gettoken_0 [OF t that] by simp
    then have "length s2 < n" using Suc.prems l by linarith
    then show ?thesis using l by (auto intro!: ends_pbind [OF parseredirs_ends] intro: ends_mono [OF Suc.IH])
  qed
  then show ?case using p t l by auto
qed simp

lemma parsebacks_ends: "length s < n \<Longrightarrow> ends (length s) (parsebacks n c s)"
proof (induction n arbitrary: c s)
  case (Suc n)
  obtain more s1 where p: "peek s ''&'' = (more, s1)" by fastforce
  obtain tok q s2 where t: "gettoken s1 = (tok, q, s2)" by (cases "gettoken s1")
  have "length s2 < length s" if more using peek_gettoken [of s _ s1] p t that by simp
  then show ?case using Suc p t peek_le [OF p] by (auto intro: ends_mono [OF Suc.IH])
qed simp

text \<open>
  The four functions that call each other: a nested block costs four levels and at least one character.
\<close>

lemma parse_ends:
  "4 * length s + 4 < n \<Longrightarrow> ends (length s) (parseline n s)"
  "4 * length s + 3 < n \<Longrightarrow> ends (length s) (parsepipe n s)"
  "4 * length s + 2 < n \<Longrightarrow> ends (length s) (parseexec n s)"
  "4 * length s + 1 < n \<Longrightarrow> ends (length s) (parseblock n s)"
proof (induction n arbitrary: s)
  case (Suc n)
  have next_tok: "length s2 < length r" if "peek r toks = (True, s1)" "gettoken s1 = (tok, q, s2)" for r toks s1 tok q s2
    using peek_gettoken that by blast
  {
    case 1
    have 4: "ends (length s) (case peek r '';'' of (more, s) \<Rightarrow> if \<not> more then Parsed c s
        else case gettoken s of (_, _, s) \<Rightarrow> pbind (parseline n s) (\<lambda>d s. Parsed (Listcmd c d) s))"
      if r: "length r \<le> length s" for c r
    proof -
      obtain more s1 where p: "peek r '';'' = (more, s1)" by fastforce
      obtain tok q s2 where t: "gettoken s1 = (tok, q, s2)" by (cases "gettoken s1")
      have "ends (length s) (pbind (parseline n s2) (\<lambda>d s. Parsed (Listcmd c d) s))" if more
      proof -
        have "length s2 < length s" using next_tok [of r _ s1] p t that r by fastforce
        then show ?thesis using 1 by (auto intro!: ends_pbind [OF Suc.IH(1)])
      qed
      then show ?thesis using p t r peek_le [OF p] by auto
    qed
    show ?case
      using 1 4 by (auto intro!: ends_pbind [OF Suc.IH(2)] ends_pbind [OF parsebacks_ends])
  next
    case 2
    have "ends (length s) (case peek r ''|'' of (more, s) \<Rightarrow> if \<not> more then Parsed c s
        else case gettoken s of (_, _, s) \<Rightarrow> pbind (parsepipe n s) (\<lambda>d s. Parsed (Pipecmd c d) s))"
      if r: "length r \<le> length s" for c r
    proof -
      obtain more s1 where p: "peek r ''|'' = (more, s1)" by fastforce
      obtain tok q s2 where t: "gettoken s1 = (tok, q, s2)" by (cases "gettoken s1")
      have "ends (length s) (pbind (parsepipe n s2) (\<lambda>d s. Parsed (Pipecmd c d) s))" if more
      proof -
        have "length s2 < length s" using next_tok [of r _ s1] p t that r by fastforce
        then show ?thesis using 2 by (auto intro!: ends_pbind [OF Suc.IH(2)])
      qed
      then show ?thesis using p t r peek_le [OF p] by auto
    qed
    then show ?case using 2 by (auto intro!: ends_pbind [OF Suc.IH(3)])
  next
    case 3
    obtain block s1 where p: "peek s ''('' = (block, s1)" by fastforce
    have l: "length s1 \<le> length s" by (rule peek_le [OF p])
    have "ends (length s) (pbind (parseredirs n [] s1) (\<lambda>rs s. parseargs n [] rs s))"
      using 3 l by (auto intro!: ends_pbind [OF parseredirs_ends] intro: ends_mono [OF parseargs_ends])
    moreover have "ends (length s) (parseblock n s1)" using 3 l by (auto intro: ends_mono [OF Suc.IH(4)])
    ultimately show ?case using p by simp
  next
    case 4
    obtain block s1 where p: "peek s ''('' = (block, s1)" by fastforce
    obtain tok q s2 where t: "gettoken s1 = (tok, q, s2)" by (cases "gettoken s1")
    have after: "ends (length s) (case peek r '')'' of (closed, s) \<Rightarrow> if \<not> closed then Syntax ''syntax - missing )''
         else case gettoken s of (_, _, s) \<Rightarrow> pbind (parseredirs n [] s) (\<lambda>rs s. Parsed (redirect c rs) s))"
      if r: "length r \<le> length s" for c r
    proof -
      obtain closed r1 where p: "peek r '')'' = (closed, r1)" by fastforce
      obtain tok q r2 where t: "gettoken r1 = (tok, q, r2)" by (cases "gettoken r1")
      have "length r2 \<le> length s" using peek_le [OF p] gettoken_le [OF t] r by simp
      then have "ends (length s) (pbind (parseredirs n [] r2) (\<lambda>rs s. Parsed (redirect c rs) s))"
        using 4 by (auto intro!: ends_pbind [OF parseredirs_ends])
      then show ?thesis using p t by auto
    qed
    have "ends (length s) (pbind (parseline n s2) (\<lambda>c s. case peek s '')'' of (closed, s) \<Rightarrow> if \<not> closed then Syntax ''syntax - missing )''
         else case gettoken s of (_, _, s) \<Rightarrow> pbind (parseredirs n [] s) (\<lambda>rs s. Parsed (redirect c rs) s)))" if block
    proof -
      have "length s2 < length s" using next_tok [of s _ s1] p t that by simp
      then show ?thesis using 4 after by (auto intro!: ends_pbind [OF Suc.IH(1)])
    qed
    then show ?case using p t by auto
  }
qed simp_all

text \<open>
  C22: The parser ends on every line: the fuel that \<open>parsecmd\<close> provides, which is linear in the length of the line,
  is enough for the recursion and all loops, so the result is a command or a syntax error.
\<close>

theorem parsecmd_terminates: "parsecmd s \<noteq> Deep"
proof -
  have "ends 0 (parsecmd s)"
    unfolding parsecmd_def by (rule ends_pbind [OF parse_ends(1)]) (auto split: prod.split)
  then show ?thesis by auto
qed

end
