(* ===== verification/Spec2Isabelle.thy ===== *)
theory Spec2Isabelle
  imports Xv6_String Xv6_Buddy Xv6_Spinlock Xv6_Pipe_Queue Xv6_Print_Spec Xv6_Fs_Spec Xv6_Trap_Spec Xv6_Fork_Spec Xv6_Grep Xv6_Sh
begin

text \<open>
  A model of the xv6 operating system for RISC-V, from the C sources under \<open>src/os\<close>, with the
  theorems that make its parts correct.

  \<^bold>\<open>The program.\<close> The kernel is a stack of layers. A page allocator hands out physical pages; the
  virtual memory code builds page tables from them; processes own page tables, kernel stacks and open
  files, sleep on channels and are picked by a scheduler. The buffer cache keeps disk blocks in memory, the log
  groups block writes into transactions that survive a crash, and the file system keeps inodes,
  directories and paths on top. Pipes, the console and inodes are behind open files; system calls reach all of
  them from a trap.

  \<^bold>\<open>How the code is modelled.\<close> An operation of the kernel is a function from its arguments and
  the state to an \<open>outcome\<close> (\<open>Xv6_Prelude\<close>): \<open>Done\<close> a result and the new state, a
  \<open>Panic\<close> with the message of the code's \<open>panic\<close> call, \<open>Block\<close> on a sleep channel with the state at
  that point, or \<open>Undef\<close> where the C code would dereference a null pointer or read past its arguments. \<open>bnd\<close>
  sequences operations the way the code does, and \<open>each\<close> is a \<open>for\<close> loop over a list. State is an extensible
  record per component, each extending the one below it:
  \<open>kmem_st\<close> (memory, free list), \<open>vm_st\<close> (kernel page table), \<open>proc_st\<close> (process table), \<open>bcache_st\<close> (buffers, their
  list, the disk and the writes made to it), \<open>log_st\<close>, \<open>fs_st\<close> (super block, inode cache), \<open>file_st\<close> (pipes, console, open
  files) and \<open>sys_st\<close> (ticks, CPU registers). Operations are polymorphic in the rest of the record, so that a
  lower layer is used by a higher one as it is.

  Pointers into a table are indices, physical pages are functions from a 9-bit index to a 64-bit word, and integers
  have their width where it matters (\<open>u8\<close> to \<open>u64\<close>). The code between \<open>acquire\<close> and \<open>release\<close> of a spin lock is one step; the
  spin locks themselves are modelled instruction by instruction, with interleaving CPUs. A process that sleeps ends the
  operation with \<open>Block\<close>: what it does when it is scheduled again is not followed, except where the code tests its condition
  anew, as in \<open>begin_op\<close> and \<open>sys_sleep\<close>, which are one pass of their loop.

  \<^bold>\<open>Theories, sources and results.\<close>
  \<^item> \<open>Xv6_Prelude\<close>: outcomes, their sequencing, \<open>returns\<close> and \<open>keeps\<close> rules, and word lemmas.
  \<^item> \<open>Xv6_String\<close> (\<open>kernel/string.c\<close>): memory and string functions; \<open>memmove\<close> on overlapping
    ranges, \<open>strncmp\<close>, \<open>safestrcpy\<close>.
  \<^item> \<open>Xv6_List\<close> (\<open>kernel/list.c\<close>): circular doubly-linked lists refine sequences; the locale \<open>linked_lists\<close> is what the
    buffer cache relies on.
  \<^item> \<open>Xv6_Buddy\<close> (\<open>kernel/buddy.c\<close>): the buddy allocator over those lists, and the size it takes for a request.
  \<^item> \<open>Xv6_Riscv\<close> (\<open>kernel/riscv.h\<close>, \<open>kernel/memlayout.h\<close>): addresses and page-table entries.
  \<^item> \<open>Xv6_Kalloc\<close> (\<open>kernel/kalloc.c\<close>): the free list refines a set of pages; the locale \<open>page_allocator\<close> is its contract.
  \<^item> \<open>Xv6_Vm\<close> (\<open>kernel/vm.c\<close>), \<open>Xv6_Vmframe\<close>, \<open>Xv6_Pagetable\<close> and \<open>Xv6_Copy\<close>: page tables as trees, what mapping, unmapping and copying
    do to the translation of addresses, and the copies between kernel and user memory.
  \<^item> \<open>Xv6_Spinlock\<close> (\<open>kernel/spinlock.c\<close>): the locks as a step relation of many CPUs, with mutual exclusion.
  \<^item> \<open>Xv6_Proc\<close> (\<open>kernel/proc.c\<close>): the process table; pids, \<open>wait\<close>, \<open>kill\<close>, sleep and wakeup.
  \<^item> \<open>Xv6_Sleeplock\<close> (\<open>kernel/sleeplock.c\<close>), \<open>Xv6_Block\<close> (byte layout of disk blocks).
  \<^item> \<open>Xv6_Bio\<close> (\<open>kernel/bio.c\<close>): the buffer cache refines an abstract cache; the locale \<open>block_cache\<close> has the rules that
    its clients are verified with.
  \<^item> \<open>Xv6_Log\<close> (\<open>kernel/log.c\<close>): commits are atomic under a crash after any disk write.
  \<^item> \<open>Xv6_Fs\<close> (\<open>kernel/fs.c\<close>) and \<open>Xv6_Fs_Spec\<close>: inode encoding, free map, paths, inode cache.
  \<^item> \<open>Xv6_Ring\<close>: ring buffers with wrapping counters (locale \<open>ring_buffer\<close>), shared by pipes and the console.
  \<^item> \<open>Xv6_Pipe\<close> (\<open>kernel/pipe.c\<close>) and \<open>Xv6_Pipe_Queue\<close>: pipes are bounded queues.
  \<^item> \<open>Xv6_Printf\<close> (\<open>kernel/printf.c\<close>) and \<open>Xv6_Print_Spec\<close>: numbers are printed right and fit the buffer.
  \<^item> \<open>Xv6_File\<close> (\<open>kernel/file.c\<close>, \<open>kernel/console.c\<close>) and \<open>Xv6_Console_Spec\<close>: the console input is a line editor.
  \<^item> \<open>Xv6_Sys\<close> (\<open>kernel/exec.c\<close>, \<open>fork\<close>, \<open>exit\<close>, \<open>userinit\<close>), \<open>Xv6_Syscall\<close> (\<open>kernel/sysfile.c\<close>, \<open>kernel/sysproc.c\<close>,
    \<open>kernel/syscall.c\<close>), \<open>Xv6_Trap\<close> (\<open>kernel/trap.c\<close>) and \<open>Xv6_Trap_Spec\<close>: arguments and descriptors, sleeping, unknown calls.
  \<^item> \<open>Xv6_Fork_Spec\<close>: \<open>fork\<close> makes a child that is a copy of its parent and counts the new references to open files.
  \<^item> \<open>Xv6_Sh\<close> (\<open>user/sh.c\<close>): the command parser ends on every line. \<open>Xv6_Grep\<close> (\<open>user/grep.c\<close>): the matcher decides the
    language of its patterns.
  \<^item> \<open>Xv6_Quiet\<close>: a concrete state for examples.

  \<^bold>\<open>Bounds and termination.\<close> Loops over a range are structural or have a \<open>termination\<close> proof. \<open>freewalk\<close> has fuel 3, the depth
  of a page table. \<open>erase_line\<close> of the console takes as its bound the length of the line, which its lemma shows to be
  enough. The searches of linked lists and \<open>strlen\<close> are \<open>partial_function\<close>s; the theorems about them
  show that they return. The fuel of the shell's parser is linear in the length of the line, and shown to be enough.

  \<^bold>\<open>Not modelled.\<close> Assembly (\<open>entry.S\<close>, \<open>kernelvec.S\<close>, \<open>swtch.S\<close>, \<open>trampoline.S\<close>, \<open>usys.S\<close>), machine-mode
  start-up (\<open>start.c\<close>, \<open>main.c\<close>) and the registers of the PLIC, UART and virtio devices: they act on hardware state that C does not
  describe. The virtio driver is seen as the transfer it makes. \<open>ramdisk.c\<close> is not linked into the kernel. The user
  programs other than those named above are system-call sequences or tests of the kernel.
\<close>

end
